theory Spec2Isabelle
  imports
    Main
    "HOL-Library.Char_ord"
    "HOL-Library.List_Lexorder"
    "HOL-Library.Product_Lexorder"
    "HOL-Library.AList"
begin

section \<open>PyGit: a shallow embedding of \<^verbatim>\<open>src/main.py\<close>\<close>

text \<open>
  The embedding follows the Python source function by function.  Python exceptions are
  values of the type \<open>error\<close>; a function that can raise returns \<open>error + 'a\<close> with
  \<open>Inl\<close> for the exception.  The state of a repository (the index file, the object
  directory and the files an add operation reads) is an explicit record that every
  operation takes and returns.  The three libraries the source calls (\<^verbatim>\<open>hashlib\<close>,
  \<^verbatim>\<open>zlib\<close>, \<^verbatim>\<open>json\<close>) are parameters, collected in the record \<open>pylib\<close>.
\<close>

subsection \<open>Python values\<close>

text \<open>
  A \<^verbatim>\<open>bytes\<close> object is a list of 8-bit characters.  A \<^verbatim>\<open>str\<close> is held as the byte
  sequence of its code points in UTF-8 (a lone surrogate as the three bytes the
  generalised scheme gives it, which strict UTF-8 refuses).  On this representation
  concatenation, equality, the code point order, splitting at an ASCII character and
  slicing an ASCII string are the operations on lists; \<^verbatim>\<open>len\<close> counts lead bytes;
  \<^verbatim>\<open>encode()\<close> and \<^verbatim>\<open>decode()\<close> check strict UTF-8 and keep the bytes.
\<close>

type_synonym bytes = string
type_synonym str = string

abbreviation NUL :: char where
  "NUL \<equiv> CHR 0x00"

text \<open>
  The exceptions the modelled code can raise.  \<open>CorruptObject\<close> and \<open>InvalidPath\<close> are
  the error kinds the specification names; no line of the source raises them.
\<close>

datatype error =
    TypeError
  | ValueError
  | IndexError
  | KeyError
  | UnicodeEncodeError
  | UnicodeDecodeError
  | ZlibError
  | FileNotFoundError
  | FileExistsError
  | IsADirectoryError
  | CorruptObject
  | InvalidPath

definition is_cont :: "char \<Rightarrow> bool" where
  "is_cont c \<longleftrightarrow> 128 \<le> (of_char c :: nat) \<and> (of_char c :: nat) < 192"

definition second_ok :: "nat \<Rightarrow> char \<Rightarrow> bool" where
  "second_ok x b =
     (let y = (of_char b :: nat) in
      if x = 224 then 160 \<le> y \<and> y < 192
      else if x = 237 then 128 \<le> y \<and> y < 160
      else if x = 240 then 144 \<le> y \<and> y < 192
      else if x = 244 then 128 \<le> y \<and> y < 144
      else 128 \<le> y \<and> y < 192)"

text \<open>Strict UTF-8: no overlong form, no surrogate, nothing above U+10FFFF.\<close>

fun utf8_valid :: "bytes \<Rightarrow> bool" where
  "utf8_valid [] = True"
| "utf8_valid (a # bs) =
     (let x = (of_char a :: nat) in
      if x < 128 then utf8_valid bs
      else if 194 \<le> x \<and> x < 224 then
        (case bs of b # r \<Rightarrow> is_cont b \<and> utf8_valid r | _ \<Rightarrow> False)
      else if 224 \<le> x \<and> x < 240 then
        (case bs of b # c # r \<Rightarrow> second_ok x b \<and> is_cont c \<and> utf8_valid r | _ \<Rightarrow> False)
      else if 240 \<le> x \<and> x < 245 then
        (case bs of b # c # d # r \<Rightarrow>
           second_ok x b \<and> is_cont c \<and> is_cont d \<and> utf8_valid r | _ \<Rightarrow> False)
      else False)"

definition encode :: "str \<Rightarrow> error + bytes" where
  "encode s = (if utf8_valid s then Inr s else Inl UnicodeEncodeError)"

definition decode :: "bytes \<Rightarrow> error + str" where
  "decode b = (if utf8_valid b then Inr b else Inl UnicodeDecodeError)"

text \<open>The characters of a \<^verbatim>\<open>str\<close>: each lead byte with the continuation bytes after it.\<close>

function py_chars :: "str \<Rightarrow> str list" where
  "py_chars [] = []"
| "py_chars (c # cs) = (c # takeWhile is_cont cs) # py_chars (dropWhile is_cont cs)"
  by pat_completeness auto
termination
  by (relation "measure length") (auto simp: length_dropWhile_le less_Suc_eq_le)

definition py_len :: "str \<Rightarrow> nat" where
  "py_len s = length (py_chars s)"

text \<open>\<^verbatim>\<open>s.split(sep)\<close> for a separator of one ASCII character: one part more than
  there are separators, empty parts kept.\<close>

fun py_split :: "char \<Rightarrow> str \<Rightarrow> str list" where
  "py_split sep [] = [[]]"
| "py_split sep (c # cs) =
     (if c = sep then [] # py_split sep cs
      else (case py_split sep cs of
              p # ps \<Rightarrow> (c # p) # ps
            | [] \<Rightarrow> [[c]]))"

text \<open>\<^verbatim>\<open>b.find(x)\<close> for one byte: the first index, or -1.\<close>

fun py_find :: "char \<Rightarrow> bytes \<Rightarrow> int" where
  "py_find x [] = - 1"
| "py_find x (c # cs) =
     (if c = x then 0
      else (let i = py_find x cs in if i < 0 then - 1 else i + 1))"

text \<open>The slices \<^verbatim>\<open>xs[:i]\<close> and \<^verbatim>\<open>xs[i:]\<close>: a negative index counts from the end.\<close>

definition slice_to :: "'a list \<Rightarrow> int \<Rightarrow> 'a list" where
  "slice_to xs i = (if i < 0 then take (nat (int (length xs) + i)) xs else take (nat i) xs)"

definition slice_from :: "'a list \<Rightarrow> int \<Rightarrow> 'a list" where
  "slice_from xs i = (if i < 0 then drop (nat (int (length xs) + i)) xs else drop (nat i) xs)"

text \<open>The decimal digits an f-string writes for a length.\<close>

definition digit_char :: "nat \<Rightarrow> char" where
  "digit_char d = char_of (48 + d)"

function str_nat :: "nat \<Rightarrow> str" where
  "str_nat n = (if n < 10 then [digit_char n] else str_nat (n div 10) @ [digit_char (n mod 10)])"
  by pat_completeness auto
termination
  by (relation "measure id") auto

declare str_nat.simps [simp del]

text \<open>\<^verbatim>\<open>bytes.fromhex\<close>: ASCII whitespace is skipped before a byte, the two digits of a
  byte stand together, anything else is a \<^verbatim>\<open>ValueError\<close>.\<close>

definition hexval :: "char \<Rightarrow> nat option" where
  "hexval c =
     (let x = (of_char c :: nat) in
      if 48 \<le> x \<and> x < 58 then Some (x - 48)
      else if 97 \<le> x \<and> x < 103 then Some (x - 87)
      else if 65 \<le> x \<and> x < 71 then Some (x - 55)
      else None)"

definition is_space :: "char \<Rightarrow> bool" where
  "is_space c \<longleftrightarrow> (of_char c :: nat) = 32 \<or> (9 \<le> (of_char c :: nat) \<and> (of_char c :: nat) \<le> 13)"

fun fromhex :: "str \<Rightarrow> error + bytes" where
  "fromhex [] = Inr []"
| "fromhex [c] = (if is_space c then Inr [] else Inl ValueError)"
| "fromhex (a # b # r) =
     (if is_space a then fromhex (b # r)
      else (case hexval a of
              None \<Rightarrow> Inl ValueError
            | Some x \<Rightarrow>
                (case hexval b of
                   None \<Rightarrow> Inl ValueError
                 | Some y \<Rightarrow>
                     (case fromhex r of
                        Inl e \<Rightarrow> Inl e
                      | Inr bs \<Rightarrow> Inr (char_of (16 * x + y) # bs)))))"

subsection \<open>The libraries\<close>

text \<open>
  \<^verbatim>\<open>hashlib.sha1(b).hexdigest()\<close>, \<^verbatim>\<open>zlib.compress\<close>, \<^verbatim>\<open>zlib.decompress\<close> (\<open>None\<close> where
  it raises \<^verbatim>\<open>zlib.error\<close>), \<^verbatim>\<open>json.dumps(index, indent=2)\<close> and \<^verbatim>\<open>json.loads\<close> (\<open>None\<close>
  where it raises).  The index is a \<^verbatim>\<open>Dict[str, str]\<close>, as the source annotates it: an
  association list in insertion order.  A text that \<^verbatim>\<open>json.loads\<close> turns into anything
  but an object of strings lies outside this type and outside the model.
\<close>

type_synonym index = "(str \<times> str) list"

record pylib =
  sha1_hexdigest :: "bytes \<Rightarrow> str"
  zlib_compress :: "bytes \<Rightarrow> bytes"
  zlib_decompress :: "bytes \<Rightarrow> bytes option"
  json_dumps :: "index \<Rightarrow> str"
  json_loads :: "str \<Rightarrow> index option"

subsection \<open>The object model\<close>

text \<open>
  \<^verbatim>\<open>GitObject\<close> has the attributes \<^verbatim>\<open>type\<close> and \<^verbatim>\<open>content\<close>.  Python does not fix the
  class of \<^verbatim>\<open>content\<close>: \<^verbatim>\<open>Blob\<close> stores \<^verbatim>\<open>bytes\<close> there, \<^verbatim>\<open>Tree.__init__\<close> stores the list of
  entries it was given (line 48 passes \<^verbatim>\<open>entries\<close>, not the local \<^verbatim>\<open>content\<close>), and
  \<^verbatim>\<open>Tree.add_entry\<close> stores \<^verbatim>\<open>bytes\<close> again.
\<close>

type_synonym entry = "str \<times> str \<times> str"

datatype pycontent = Bytes bytes | EntryList "entry list"

record gitobject =
  type :: str
  content :: pycontent

definition GitObject :: "str \<Rightarrow> pycontent \<Rightarrow> gitobject" where
  "GitObject obj_type c = \<lparr>type = obj_type, content = c\<rparr>"

text \<open>\<^verbatim>\<open>len(self.content)\<close>, defined for \<^verbatim>\<open>bytes\<close> and for a list.\<close>

fun content_len :: "pycontent \<Rightarrow> nat" where
  "content_len (Bytes b) = length b"
| "content_len (EntryList es) = length es"

text \<open>The header \<^verbatim>\<open>f"{self.type} {len(self.content)}\0".encode()\<close> of lines 19 and 23.\<close>

definition header_of :: "'a gitobject_scheme \<Rightarrow> error + bytes" where
  "header_of obj = encode (type obj @ '' '' @ str_nat (content_len (content obj)) @ [NUL])"

text \<open>\<^verbatim>\<open>header + self.content\<close>: \<^verbatim>\<open>bytes + list\<close> is a \<^verbatim>\<open>TypeError\<close>.\<close>

fun concat_content :: "bytes \<Rightarrow> pycontent \<Rightarrow> error + bytes" where
  "concat_content header (Bytes b) = Inr (header @ b)"
| "concat_content header (EntryList es) = Inl TypeError"

definition hash :: "pylib \<Rightarrow> 'a gitobject_scheme \<Rightarrow> error + str" where
  "hash L obj =
     (case header_of obj of
        Inl e \<Rightarrow> Inl e
      | Inr header \<Rightarrow>
          (case concat_content header (content obj) of
             Inl e \<Rightarrow> Inl e
           | Inr framed \<Rightarrow> Inr (sha1_hexdigest L framed)))"

definition serialize :: "pylib \<Rightarrow> 'a gitobject_scheme \<Rightarrow> error + bytes" where
  "serialize L obj =
     (case header_of obj of
        Inl e \<Rightarrow> Inl e
      | Inr header \<Rightarrow>
          (case concat_content header (content obj) of
             Inl e \<Rightarrow> Inl e
           | Inr framed \<Rightarrow> Inr (zlib_compress L framed)))"

text \<open>
  \<^verbatim>\<open>GitObject.deserialize\<close> (lines 27 to 35).  \<^verbatim>\<open>find\<close> gives -1 when there is no NUL,
  and the slices are taken with that index as it is.  \<^verbatim>\<open>obj_type, _ = header.split(" ")\<close>
  needs exactly two parts.  The second part and the length of the content are not read.
\<close>

definition deserialize :: "pylib \<Rightarrow> bytes \<Rightarrow> error + gitobject" where
  "deserialize L data =
     (case zlib_decompress L data of
        None \<Rightarrow> Inl ZlibError
      | Some decompressed \<Rightarrow>
          (let null_index = py_find NUL decompressed in
           case decode (slice_to decompressed null_index) of
             Inl e \<Rightarrow> Inl e
           | Inr header \<Rightarrow>
               (let c = slice_from decompressed (null_index + 1) in
                case py_split (CHR '' '') header of
                  [obj_type, _] \<Rightarrow> Inr (GitObject obj_type (Bytes c))
                | _ \<Rightarrow> Inl ValueError)))"

definition Blob :: "bytes \<Rightarrow> gitobject" where
  "Blob c = GitObject ''blob'' (Bytes c)"

record tree = gitobject +
  entries :: "entry list"

text \<open>
  \<^verbatim>\<open>Tree._serialize_entries\<close> (lines 54 to 62): the loop over \<^verbatim>\<open>sorted(self.entries)\<close>
  with its accumulator \<^verbatim>\<open>content\<close>.  Python orders tuples lexicographically and
  strings by code point, which is the byte order of their UTF-8 form.
\<close>

fun serialize_loop :: "bytes \<Rightarrow> entry list \<Rightarrow> error + bytes" where
  "serialize_loop acc [] = Inr acc"
| "serialize_loop acc ((mode, name, obj_hash) # es) =
     (case encode (mode @ '' '' @ name @ [NUL]) of
        Inl e \<Rightarrow> Inl e
      | Inr line \<Rightarrow>
          (case fromhex obj_hash of
             Inl e \<Rightarrow> Inl e
           | Inr raw \<Rightarrow> serialize_loop (acc @ line @ raw) es))"

definition serialize_entries :: "entry list \<Rightarrow> error + bytes" where
  "serialize_entries es = serialize_loop [] (sort es)"

text \<open>
  \<^verbatim>\<open>Tree.__init__(self, entries)\<close> (lines 45 to 48).  The parameter has no default, so
  the call \<^verbatim>\<open>Tree()\<close> of lines 66, 283 and 310 is a \<^verbatim>\<open>TypeError\<close>: \<open>Tree_call None\<close>.
  With an argument, the serialised bytes are computed and dropped, and the list itself
  becomes \<^verbatim>\<open>content\<close>.
\<close>

definition Tree_init :: "entry list \<Rightarrow> error + tree" where
  "Tree_init es =
     (case serialize_entries es of
        Inl e \<Rightarrow> Inl e
      | Inr c \<Rightarrow> Inr \<lparr>type = ''tree'', content = EntryList es, entries = es\<rparr>)"

fun Tree_call :: "entry list option \<Rightarrow> error + tree" where
  "Tree_call None = Inl TypeError"
| "Tree_call (Some es) = Tree_init es"

text \<open>\<^verbatim>\<open>Tree.add_entry\<close> (lines 50 to 52).\<close>

definition add_entry :: "tree \<Rightarrow> str \<Rightarrow> str \<Rightarrow> str \<Rightarrow> error + tree" where
  "add_entry t mode name obj_hash =
     (let es = entries t @ [(mode, name, obj_hash)] in
      case serialize_entries es of
        Inl e \<Rightarrow> Inl e
      | Inr c \<Rightarrow> Inr (t\<lparr>entries := es, content := Bytes c\<rparr>))"

subsection \<open>The repository on disk\<close>

text \<open>
  \<^verbatim>\<open>Repositry\<close> holds paths only; its state is the file system.  The model keeps the
  parts of it the operations touch:
  \<^item> \<open>path_parts\<close>: the components of \<^verbatim>\<open>self.path\<close>;
  \<^item> \<open>worktree\<close>: for the argument of an add operation, what \<^verbatim>\<open>self.path / path\<close> names
    (\<open>None\<close>: nothing exists there); a directory is given by what \<^verbatim>\<open>rglob("*")\<close> yields
    below it, each path with its components and, for a regular file, its bytes;
  \<^item> \<open>index_file\<close>: the bytes of \<^verbatim>\<open>.git/index\<close> (\<open>None\<close>: the file does not exist);
  \<^item> \<open>objects_dir\<close>: the listing of \<^verbatim>\<open>.git/objects\<close>, which exists; an entry is a plain
    file or a directory of regular files (the program writes nothing else there).
  A listing is an association list in the order \<^verbatim>\<open>iterdir\<close> yields it.  The paths given
  to an add operation name nothing inside \<^verbatim>\<open>.git/index\<close> and \<^verbatim>\<open>.git/objects\<close>.
\<close>

datatype found = Regular bytes | Irregular

datatype wnode = WFile bytes | WDir "(str list \<times> found) list"

datatype onode = OFile bytes | ODir "(str \<times> bytes) list"

record repositry =
  path_parts :: "str list"
  worktree :: "str \<Rightarrow> wnode option"
  index_file :: "bytes option"
  objects_dir :: "(str \<times> onode) list"

text \<open>\<^verbatim>\<open>save_index\<close> (line 173): \<^verbatim>\<open>write_text\<close> encodes the text it is given.\<close>

definition save_index :: "pylib \<Rightarrow> repositry \<Rightarrow> index \<Rightarrow> error + repositry" where
  "save_index L s idx =
     (case encode (json_dumps L idx) of
        Inl e \<Rightarrow> Inl e
      | Inr raw \<Rightarrow> Inr (s\<lparr>index_file := Some raw\<rparr>))"

text \<open>
  \<^verbatim>\<open>load_index\<close> (lines 186 to 193): \<^verbatim>\<open>read_text\<close> and \<^verbatim>\<open>json.loads\<close> both stand in the
  \<^verbatim>\<open>try\<close>, whose bare \<^verbatim>\<open>except\<close> returns \<^verbatim>\<open>{}\<close>.
\<close>

definition load_index :: "pylib \<Rightarrow> repositry \<Rightarrow> index" where
  "load_index L s =
     (case index_file s of
        None \<Rightarrow> []
      | Some raw \<Rightarrow>
          (case decode raw of
             Inl e \<Rightarrow> []
           | Inr txt \<Rightarrow>
               (case json_loads L txt of
                  None \<Rightarrow> []
                | Some idx \<Rightarrow> idx)))"

text \<open>\<^verbatim>\<open>obj_file.exists()\<close> for \<^verbatim>\<open>objects_dir / d / f\<close>.\<close>

definition obj_file_exists :: "(str \<times> onode) list \<Rightarrow> str \<Rightarrow> str \<Rightarrow> bool" where
  "obj_file_exists objs d f =
     (case map_of objs d of
        Some (ODir files) \<Rightarrow> map_of files f \<noteq> None
      | _ \<Rightarrow> False)"

text \<open>\<^verbatim>\<open>obj_dir.mkdir(exist_ok=True)\<close>: a plain file of that name is a \<^verbatim>\<open>FileExistsError\<close>.\<close>

definition mkdir_exist_ok :: "(str \<times> onode) list \<Rightarrow> str \<Rightarrow> error + (str \<times> onode) list" where
  "mkdir_exist_ok objs d =
     (case map_of objs d of
        None \<Rightarrow> Inr (objs @ [(d, ODir [])])
      | Some (ODir files) \<Rightarrow> Inr objs
      | Some (OFile b) \<Rightarrow> Inl FileExistsError)"

text \<open>\<^verbatim>\<open>obj_file.write_bytes(data)\<close> in the directory \<open>d\<close>.\<close>

definition write_bytes :: "(str \<times> onode) list \<Rightarrow> str \<Rightarrow> str \<Rightarrow> bytes \<Rightarrow> (str \<times> onode) list" where
  "write_bytes objs d f data =
     (case map_of objs d of
        Some (ODir files) \<Rightarrow> AList.update d (ODir (AList.update f data files)) objs
      | _ \<Rightarrow> objs)"

text \<open>
  \<^verbatim>\<open>store_object\<close> (lines 175 to 184).  \<^verbatim>\<open>obj_hash[:2]\<close> and \<^verbatim>\<open>obj_hash[2:]\<close> slice a
  hex digest, which is ASCII.
\<close>

definition store_object ::
  "pylib \<Rightarrow> repositry \<Rightarrow> 'a gitobject_scheme \<Rightarrow> error + (str \<times> repositry)" where
  "store_object L s obj =
     (case hash L obj of
        Inl e \<Rightarrow> Inl e
      | Inr obj_hash \<Rightarrow>
          (let obj_dir = take 2 obj_hash; obj_file = drop 2 obj_hash in
           if \<not> obj_file_exists (objects_dir s) obj_dir obj_file then
             (case mkdir_exist_ok (objects_dir s) obj_dir of
                Inl e \<Rightarrow> Inl e
              | Inr objs \<Rightarrow>
                  (case serialize L obj of
                     Inl e \<Rightarrow> Inl e
                   | Inr data \<Rightarrow>
                       Inr (obj_hash, s\<lparr>objects_dir := write_bytes objs obj_dir obj_file data\<rparr>)))
           else Inr (obj_hash, s)))"

subsection \<open>The garbage collector\<close>

text \<open>
  \<^verbatim>\<open>gc\<close> (lines 346 to 366).  The inner loop unlinks every file of a bucket whose
  \<^verbatim>\<open>obj_dir.name + obj_file.name\<close> is not in \<^verbatim>\<open>used_hashes\<close>; the outer loop skips what is
  not a directory with a name of two characters, and removes a bucket that is empty
  after its sweep.
\<close>

fun unlink_unused :: "str set \<Rightarrow> str \<Rightarrow> (str \<times> bytes) list \<Rightarrow> (str \<times> bytes) list" where
  "unlink_unused used_hashes d [] = []"
| "unlink_unused used_hashes d ((f, data) # files) =
     (let full_hash = d @ f in
      if full_hash \<notin> used_hashes then unlink_unused used_hashes d files
      else (f, data) # unlink_unused used_hashes d files)"

fun gc_loop :: "str set \<Rightarrow> (str \<times> onode) list \<Rightarrow> (str \<times> onode) list" where
  "gc_loop used_hashes [] = []"
| "gc_loop used_hashes ((name, OFile b) # rest) = (name, OFile b) # gc_loop used_hashes rest"
| "gc_loop used_hashes ((name, ODir files) # rest) =
     (if py_len name \<noteq> 2 then (name, ODir files) # gc_loop used_hashes rest
      else (let files' = unlink_unused used_hashes name files in
            if files' = [] then gc_loop used_hashes rest
            else (name, ODir files') # gc_loop used_hashes rest))"

definition gc :: "pylib \<Rightarrow> repositry \<Rightarrow> repositry" where
  "gc L s =
     (let index = load_index L s;
          used_hashes = set (map snd index)
      in s\<lparr>objects_dir := gc_loop used_hashes (objects_dir s)\<rparr>)"

subsection \<open>Staging\<close>

text \<open>\<^verbatim>\<open>add_file\<close> (lines 195 to 222).  \<^verbatim>\<open>read_bytes\<close> on a directory raises.\<close>

definition add_file :: "pylib \<Rightarrow> repositry \<Rightarrow> str \<Rightarrow> error + repositry" where
  "add_file L s path =
     (case worktree s path of
        None \<Rightarrow> Inl FileNotFoundError
      | Some (WDir fs) \<Rightarrow> Inl IsADirectoryError
      | Some (WFile c) \<Rightarrow>
          (case store_object L s (Blob c) of
             Inl e \<Rightarrow> Inl e
           | Inr (blob_hash, s1) \<Rightarrow>
               (let index = load_index L s1 in
                case save_index L s1 (AList.update path blob_hash index) of
                  Inl e \<Rightarrow> Inl e
                | Inr s2 \<Rightarrow> Inr (gc L s2))))"

text \<open>
  \<^verbatim>\<open>str(file_path.relative_to(self.path))\<close>: the components after those of
  \<^verbatim>\<open>self.path\<close>, joined with \<^verbatim>\<open>/\<close>; a \<^verbatim>\<open>ValueError\<close> when the path is not below it.
\<close>

fun join_parts :: "str list \<Rightarrow> str" where
  "join_parts [] = ''.''"
| "join_parts [p] = p"
| "join_parts (p # q # ps) = p @ ''/'' @ join_parts (q # ps)"

fun relative_to :: "str list \<Rightarrow> str list \<Rightarrow> error + str" where
  "relative_to ps [] = Inr (join_parts ps)"
| "relative_to [] (r # rs) = Inl ValueError"
| "relative_to (p # ps) (r # rs) = (if p = r then relative_to ps rs else Inl ValueError)"

text \<open>
  The loop of \<^verbatim>\<open>add_directory\<close> (lines 242 to 255) over what \<^verbatim>\<open>rglob\<close> yields: the state
  changes with every stored blob, the local \<^verbatim>\<open>index\<close> with every file.  (The counter
  \<^verbatim>\<open>added_cnt\<close> only chooses the message printed.)
\<close>

fun add_loop ::
  "pylib \<Rightarrow> (str list \<times> found) list \<Rightarrow> repositry \<Rightarrow> index \<Rightarrow> error + (repositry \<times> index)" where
  "add_loop L [] s index = Inr (s, index)"
| "add_loop L ((parts, Irregular) # rest) s index = add_loop L rest s index"
| "add_loop L ((parts, Regular c) # rest) s index =
     (if ''.git'' \<in> set parts \<or> ''.vscode'' \<in> set parts then add_loop L rest s index
      else (case store_object L s (Blob c) of
              Inl e \<Rightarrow> Inl e
            | Inr (blob_hash, s1) \<Rightarrow>
                (case relative_to parts (path_parts s) of
                   Inl e \<Rightarrow> Inl e
                 | Inr rel_path \<Rightarrow> add_loop L rest s1 (AList.update rel_path blob_hash index))))"

text \<open>\<^verbatim>\<open>add_directory\<close> (lines 224 to 265).\<close>

definition add_directory :: "pylib \<Rightarrow> repositry \<Rightarrow> str \<Rightarrow> error + repositry" where
  "add_directory L s path =
     (case worktree s path of
        None \<Rightarrow> Inl FileNotFoundError
      | Some (WFile c) \<Rightarrow> Inl ValueError
      | Some (WDir fs) \<Rightarrow>
          (case add_loop L fs s (load_index L s) of
             Inl e \<Rightarrow> Inl e
           | Inr (s1, index) \<Rightarrow>
               (case save_index L s1 index of
                  Inl e \<Rightarrow> Inl e
                | Inr s2 \<Rightarrow> Inr (gc L s2))))"

subsection \<open>The tree builder\<close>

text \<open>
  The dictionaries \<^verbatim>\<open>dirs\<close> and \<^verbatim>\<open>root_entries\<close> of \<^verbatim>\<open>create_tree_from_index\<close> hold a
  \<^verbatim>\<open>str\<close> (a blob digest) or a nested dictionary under each name.
\<close>

datatype pyval = Str str | Dict "(str \<times> pyval) list"

fun starts_with :: "str \<Rightarrow> str \<Rightarrow> bool" where
  "starts_with s [] = True"
| "starts_with [] (p # ps) = False"
| "starts_with (c # cs) (p # ps) = (c = p \<and> starts_with cs ps)"

fun substring_in :: "str \<Rightarrow> str \<Rightarrow> bool" where
  "substring_in p [] = (p = [])"
| "substring_in p (c # cs) = (starts_with (c # cs) p \<or> substring_in p cs)"

text \<open>\<^verbatim>\<open>part in curr\<close>: a key of a dictionary, a substring of a \<^verbatim>\<open>str\<close>.\<close>

fun py_in :: "str \<Rightarrow> pyval \<Rightarrow> bool" where
  "py_in part (Dict d) = (part \<in> fst ` set d)"
| "py_in part (Str v) = substring_in part v"

text \<open>\<^verbatim>\<open>curr[key] = v\<close> and \<^verbatim>\<open>curr[key]\<close>: a \<^verbatim>\<open>str\<close> supports neither with a \<^verbatim>\<open>str\<close> key.\<close>

fun setitem :: "pyval \<Rightarrow> str \<Rightarrow> pyval \<Rightarrow> error + pyval" where
  "setitem (Dict d) key v = Inr (Dict (AList.update key v d))"
| "setitem (Str x) key v = Inl TypeError"

fun getitem :: "pyval \<Rightarrow> str \<Rightarrow> error + pyval" where
  "getitem (Dict d) key = (case map_of d key of None \<Rightarrow> Inl KeyError | Some v \<Rightarrow> Inr v)"
| "getitem (Str x) key = Inl TypeError"

text \<open>
  Lines 300 to 307, from \<^verbatim>\<open>curr = dirs[dir_name]\<close> on: the walk over \<^verbatim>\<open>parts[1:-1]\<close> and the
  final \<^verbatim>\<open>curr[parts[-1]] = blob_hash\<close>.  The source mutates the nested dictionaries in
  place; the model returns the dictionary it started from as it is after the walk.
\<close>

fun insert_at :: "str list \<Rightarrow> str \<Rightarrow> str \<Rightarrow> pyval \<Rightarrow> error + pyval" where
  "insert_at [] last_part blob_hash cur = setitem cur last_part (Str blob_hash)"
| "insert_at (part # mid) last_part blob_hash cur =
     (case (if \<not> py_in part cur then setitem cur part (Dict []) else Inr cur) of
        Inl e \<Rightarrow> Inl e
      | Inr cur1 \<Rightarrow>
          (case getitem cur1 part of
             Inl e \<Rightarrow> Inl e
           | Inr sub \<Rightarrow>
               (case insert_at mid last_part blob_hash sub of
                  Inl e \<Rightarrow> Inl e
                | Inr sub' \<Rightarrow> setitem cur1 part sub')))"

text \<open>The loop of lines 289 to 307 over \<^verbatim>\<open>index.items()\<close>, with \<^verbatim>\<open>files\<close> and \<^verbatim>\<open>dirs\<close>.\<close>

fun group_loop ::
  "index \<Rightarrow> (str \<times> str) list \<Rightarrow> (str \<times> pyval) list \<Rightarrow>
     error + ((str \<times> str) list \<times> (str \<times> pyval) list)" where
  "group_loop [] files dirs = Inr (files, dirs)"
| "group_loop ((file_path, blob_hash) # rest) files dirs =
     (case py_split (CHR ''/'') file_path of
        [] \<Rightarrow> Inl IndexError
      | [p] \<Rightarrow> group_loop rest (AList.update p blob_hash files) dirs
      | dir_name # others \<Rightarrow>
          (let dirs1 = (if dir_name \<notin> fst ` set dirs
                        then AList.update dir_name (Dict []) dirs else dirs)
           in case map_of dirs1 dir_name of
                None \<Rightarrow> Inl KeyError
              | Some cur \<Rightarrow>
                  (case insert_at (butlast others) (last others) blob_hash cur of
                     Inl e \<Rightarrow> Inl e
                   | Inr cur' \<Rightarrow> group_loop rest files (AList.update dir_name cur' dirs1))))"

text \<open>
  Lines 322 to 324.  \<^verbatim>\<open>for dir_name, dir_contents in dirs\<close> iterates over the keys of
  \<^verbatim>\<open>dirs\<close> and unpacks each key, a \<^verbatim>\<open>str\<close>, into two names: a key of two characters gives
  its characters, any other key is a \<^verbatim>\<open>ValueError\<close>.
\<close>

definition unpack_pair :: "str \<Rightarrow> error + (str \<times> str)" where
  "unpack_pair key = (case py_chars key of [a, b] \<Rightarrow> Inr (a, b) | _ \<Rightarrow> Inl ValueError)"

fun dirs_loop :: "(str \<times> pyval) list \<Rightarrow> (str \<times> pyval) list \<Rightarrow> error + (str \<times> pyval) list" where
  "dirs_loop [] root_entries = Inr root_entries"
| "dirs_loop ((key, v) # rest) root_entries =
     (case unpack_pair key of
        Inl e \<Rightarrow> Inl e
      | Inr (dir_name, dir_contents) \<Rightarrow>
          dirs_loop rest (AList.update dir_name (Str dir_contents) root_entries))"

text \<open>
  \<^verbatim>\<open>create_tree_recursive\<close> (lines 309 to 320) and its loop over
  \<^verbatim>\<open>entries_dict.items()\<close>; the repository is threaded through the calls of
  \<^verbatim>\<open>store_object\<close>.
\<close>

fun create_tree_recursive ::
  "pylib \<Rightarrow> (str \<times> pyval) list \<Rightarrow> repositry \<Rightarrow> error + (str \<times> repositry)"
and items_loop ::
  "pylib \<Rightarrow> (str \<times> pyval) list \<Rightarrow> tree \<Rightarrow> repositry \<Rightarrow> error + (tree \<times> repositry)" where
  "create_tree_recursive L entries_dict s =
     (case Tree_call None of
        Inl e \<Rightarrow> Inl e
      | Inr t \<Rightarrow>
          (case items_loop L entries_dict t s of
             Inl e \<Rightarrow> Inl e
           | Inr (t', s') \<Rightarrow> store_object L s' t'))"
| "items_loop L [] t s = Inr (t, s)"
| "items_loop L ((name, Str v) # rest) t s =
     (case add_entry t ''100644'' name v of
        Inl e \<Rightarrow> Inl e
      | Inr t' \<Rightarrow> items_loop L rest t' s)"
| "items_loop L ((name, Dict sub) # rest) t s =
     (case create_tree_recursive L sub s of
        Inl e \<Rightarrow> Inl e
      | Inr (subtree_hash, s1) \<Rightarrow>
          (case add_entry t ''40000'' name subtree_hash of
             Inl e \<Rightarrow> Inl e
           | Inr t' \<Rightarrow> items_loop L rest t' s1))"

text \<open>\<^verbatim>\<open>create_tree_from_index\<close> (lines 280 to 326).\<close>

definition create_tree_from_index :: "pylib \<Rightarrow> repositry \<Rightarrow> error + (str \<times> repositry)" where
  "create_tree_from_index L s =
     (let index = load_index L s in
      if index = [] then
        (case Tree_call None of
           Inl e \<Rightarrow> Inl e
         | Inr t \<Rightarrow> store_object L s t)
      else
        (case group_loop index [] [] of
           Inl e \<Rightarrow> Inl e
         | Inr (files, dirs) \<Rightarrow>
             (case dirs_loop dirs (map (\<lambda>(name, v). (name, Str v)) files) of
                Inl e \<Rightarrow> Inl e
              | Inr root_entries \<Rightarrow> create_tree_recursive L root_entries s)))"

subsection \<open>Observing the object store\<close>

text \<open>
  The entries the sweep of \<^verbatim>\<open>gc\<close> enumerates: for every directory of \<^verbatim>\<open>.git/objects\<close>
  with a name of two characters, every file in it, under the digest
  \<^verbatim>\<open>obj_dir.name + obj_file.name\<close>.  \<open>object_exists\<close> is the test that \<^verbatim>\<open>store_object\<close>
  makes for a digest.
\<close>

fun stored_entries :: "(str \<times> onode) list \<Rightarrow> (str \<times> bytes) list" where
  "stored_entries [] = []"
| "stored_entries ((name, OFile b) # rest) = stored_entries rest"
| "stored_entries ((name, ODir files) # rest) =
     (if py_len name \<noteq> 2 then stored_entries rest
      else map (\<lambda>(f, data). (name @ f, data)) files @ stored_entries rest)"

definition all_digests :: "(str \<times> onode) list \<Rightarrow> str list" where
  "all_digests objs = map fst (stored_entries objs)"

definition object_exists :: "(str \<times> onode) list \<Rightarrow> str \<Rightarrow> bool" where
  "object_exists objs h = obj_file_exists objs (take 2 h) (drop 2 h)"

text \<open>The buckets of a listing that hold no file.\<close>

fun empty_buckets :: "(str \<times> onode) list \<Rightarrow> str list" where
  "empty_buckets [] = []"
| "empty_buckets ((name, OFile b) # rest) = empty_buckets rest"
| "empty_buckets ((name, ODir files) # rest) =
     (if py_len name = 2 \<and> files = [] then name # empty_buckets rest else empty_buckets rest)"

text \<open>A directory holds one entry under a name: the names of a listing are distinct.\<close>

fun files_distinct :: "onode \<Rightarrow> bool" where
  "files_distinct (OFile b) = True"
| "files_distinct (ODir files) = distinct (map fst files)"

definition listing_ok :: "(str \<times> onode) list \<Rightarrow> bool" where
  "listing_ok objs \<longleftrightarrow> distinct (map fst objs) \<and> list_all (\<lambda>(name, node). files_distinct node) objs"

text \<open>What \<^verbatim>\<open>hexdigest()\<close> of SHA-1 returns: forty hexadecimal digits.\<close>

definition hexdigest :: "str \<Rightarrow> bool" where
  "hexdigest h \<longleftrightarrow> length h = 40 \<and> list_all (\<lambda>c. hexval c \<noteq> None) h"

subsection \<open>Concrete instances\<close>

text \<open>
  A stand-in for the three libraries, on which the model can be run: the digest is
  one decimal digit, chosen by the length of the input, written forty times;
  compression stores the bytes as they are; the index is written as its keys and
  values, each closed by a NUL byte, and read back from that form.
\<close>

fun pair_up :: "str list \<Rightarrow> index option" where
  "pair_up [] = None"
| "pair_up [t] = (if t = [] then Some [] else None)"
| "pair_up (k # v # r) = map_option ((#) (k, v)) (pair_up r)"

definition toy_lib :: pylib where
  "toy_lib =
     \<lparr>sha1_hexdigest = (\<lambda>b. replicate 40 (digit_char (length b mod 10))),
      zlib_compress = (\<lambda>b. b),
      zlib_decompress = Some,
      json_dumps = (\<lambda>idx. concat (map (\<lambda>(k, v). k @ [NUL] @ v @ [NUL]) idx)),
      json_loads = (\<lambda>txt. pair_up (py_split NUL txt))\<rparr>"

definition no_files :: "str \<Rightarrow> wnode option" where
  "no_files p = None"

definition repo_of :: "bytes option \<Rightarrow> (str \<times> onode) list \<Rightarrow> repositry" where
  "repo_of idx objs =
     \<lparr>path_parts = [''/'', ''repo''], worktree = no_files, index_file = idx, objects_dir = objs\<rparr>"

definition digest1 :: str where
  "digest1 = replicate 40 (CHR ''1'')"

definition digest2 :: str where
  "digest2 = replicate 40 (CHR ''2'')"

definition digest3 :: str where
  "digest3 = replicate 40 (CHR ''3'')"

text \<open>
  A repository for the examples: the blobs of \<^verbatim>\<open>b"abcd"\<close>, \<^verbatim>\<open>b"hello"\<close> and \<^verbatim>\<open>b"world!"\<close>
  stored under the digests the stand-in gives them, and an index that names the first
  of them only.
\<close>

definition three_blobs :: "(str \<times> onode) list" where
  "three_blobs =
     [(''11'', ODir [(replicate 38 (CHR ''1''), ''blob 4'' @ [NUL] @ ''abcd'')]),
      (''22'', ODir [(replicate 38 (CHR ''2''), ''blob 5'' @ [NUL] @ ''hello'')]),
      (''33'', ODir [(replicate 38 (CHR ''3''), ''blob 6'' @ [NUL] @ ''world!'')])]"

definition gc_repo :: repositry where
  "gc_repo = repo_of (Some (json_dumps toy_lib [(''a.txt'', digest1)])) three_blobs"

text \<open>The tree that \<^verbatim>\<open>add_entry("100644", "notes.md", digest1)\<close> makes of an empty one.\<close>

definition notes_tree :: tree where
  "notes_tree =
     \<lparr>type = ''tree'',
      content = Bytes (''100644 notes.md'' @ [NUL] @ replicate 20 (CHR 0x11)),
      entries = [(''100644'', ''notes.md'', digest1)]\<rparr>"

definition digest4 :: str where
  "digest4 = replicate 40 (CHR ''4'')"

text \<open>A work tree with one file and one directory, for the add operations.\<close>

definition some_files :: "str \<Rightarrow> wnode option" where
  "some_files p =
     (if p = ''a.txt'' then Some (WFile ''abcd'')
      else if p = ''src'' then
        Some (WDir [([''/'', ''repo'', ''src'', ''main.py''], Regular ''hello''),
                    ([''/'', ''repo'', ''src'', ''.git'', ''config''], Regular ''x''),
                    ([''/'', ''repo'', ''src'', ''lib''], Irregular)])
      else None)"

definition work_repo :: repositry where
  "work_repo = (repo_of (Some (json_dumps toy_lib [(''old.txt'', digest3)])) three_blobs)
     \<lparr>worktree := some_files\<rparr>"


text \<open>The index of claim C1, and an index with empty path segments.\<close>

definition two_entry_repo :: repositry where
  "two_entry_repo =
     repo_of (Some (json_dumps toy_lib [(''a.txt'', digest1), (''dir/b.txt'', digest2)]))
       three_blobs"

definition slash_repo :: repositry where
  "slash_repo =
     repo_of (Some (json_dumps toy_lib [(''ab//c'', digest1), (''ab/'', digest2)])) three_blobs"

definition entry_a :: entry where
  "entry_a = (''100644'', ''a.txt'', digest1)"

definition entry_b :: entry where
  "entry_b = (''40000'', ''dir'', digest2)"

section \<open>Properties\<close>

subsection \<open>Strings and bytes\<close>

lemma ascii_valid: "\<forall>c\<in>set s. (of_char c :: nat) < 128 \<Longrightarrow> utf8_valid s"
  by (induction s) simp_all

lemma utf8_valid_append: "utf8_valid a \<Longrightarrow> utf8_valid b \<Longrightarrow> utf8_valid (a @ b)"
proof (induction a rule: utf8_valid.induct)
  case 1
  then show ?case by simp
next
  case (2 a bs)
  then show ?case
    by (auto simp: Let_def split: if_splits list.splits)
qed

lemma digit_char_eval:
  "digit_char 0 = CHR ''0''" "digit_char 1 = CHR ''1''" "digit_char (Suc 0) = CHR ''1''"
  "digit_char 2 = CHR ''2''" "digit_char 3 = CHR ''3''" "digit_char 4 = CHR ''4''"
  "digit_char 5 = CHR ''5''" "digit_char 6 = CHR ''6''" "digit_char 7 = CHR ''7''"
  "digit_char 8 = CHR ''8''" "digit_char 9 = CHR ''9''"
  by code_simp+

lemma digit_char_ascii: "d < 10 \<Longrightarrow> (of_char (digit_char d) :: nat) = 48 + d"
  by (simp add: digit_char_def)

lemma str_nat_digits:
  "c \<in> set (str_nat n) \<Longrightarrow> 48 \<le> (of_char c :: nat) \<and> (of_char c :: nat) < 58"
proof (induction n rule: str_nat.induct)
  case (1 n)
  show ?case
  proof (cases "n < 10")
    case True
    with 1(2) show ?thesis
      by (simp add: str_nat.simps [of n] digit_char_ascii)
  next
    case False
    with 1 show ?thesis
      by (auto simp: str_nat.simps [of n] digit_char_ascii)
  qed
qed

lemma str_nat_no_sep: "CHR '' '' \<notin> set (str_nat n)" "NUL \<notin> set (str_nat n)"
  using str_nat_digits [of "CHR '' ''" n] str_nat_digits [of NUL n] by auto

lemma py_find_first: "x \<notin> set h \<Longrightarrow> py_find x (h @ x # r) = int (length h)"
  by (induction h) (auto simp: Let_def)

lemma py_find_absent: "x \<notin> set s \<Longrightarrow> py_find x s = - 1"
  by (induction s) (auto simp: Let_def)

lemma py_split_none: "sep \<notin> set a \<Longrightarrow> py_split sep a = [a]"
  by (induction a) auto

lemma py_split_first: "sep \<notin> set a \<Longrightarrow> py_split sep (a @ sep # b) = a # py_split sep b"
  by (induction a) auto

lemma py_split_length: "length (py_split sep s) = Suc (count_list s sep)"
  by (induction s) (auto split: list.splits)

lemma split_at_first:
  "sep \<in> set s \<Longrightarrow>
   s = takeWhile (\<lambda>c. c \<noteq> sep) s @ sep # tl (dropWhile (\<lambda>c. c \<noteq> sep) s)"
  by (induction s) auto

lemma py_split_one:
  assumes "count_list h sep = 1"
  shows "py_split sep h = [takeWhile (\<lambda>c. c \<noteq> sep) h, tl (dropWhile (\<lambda>c. c \<noteq> sep) h)]"
proof -
  let ?a = "takeWhile (\<lambda>c. c \<noteq> sep) h"
  let ?b = "tl (dropWhile (\<lambda>c. c \<noteq> sep) h)"
  from assms have "sep \<in> set h" by (metis count_list_0_iff zero_neq_one)
  then have h: "h = ?a @ sep # ?b" by (rule split_at_first)
  have a: "sep \<notin> set ?a" by (auto dest: set_takeWhileD)
  then have "count_list ?a sep = 0" by (simp add: count_list_0_iff)
  moreover have "count_list (?a @ sep # ?b) sep = 1" using assms h by simp
  ultimately have "count_list ?b sep = 0" by simp
  then have "sep \<notin> set ?b" by (simp add: count_list_0_iff)
  then have "py_split sep ?b = [?b]" by (rule py_split_none)
  with py_split_first [OF a, of ?b] h show ?thesis by simp
qed

text \<open>What the two slices of \<^verbatim>\<open>deserialize\<close> are, with and without a NUL byte.\<close>

lemma slice_to_header:
  "slice_to p (py_find NUL p) =
     (if NUL \<in> set p then takeWhile (\<lambda>c. c \<noteq> NUL) p else butlast p)"
proof (cases "NUL \<in> set p")
  case True
  let ?a = "takeWhile (\<lambda>c. c \<noteq> NUL) p"
  let ?b = "tl (dropWhile (\<lambda>c. c \<noteq> NUL) p)"
  have p: "p = ?a @ NUL # ?b" using split_at_first [OF True] .
  have "NUL \<notin> set ?a" by (auto dest: set_takeWhileD)
  then have "py_find NUL (?a @ NUL # ?b) = int (length ?a)" by (rule py_find_first)
  with p have "py_find NUL p = int (length ?a)" by simp
  moreover have "take (length ?a) p = ?a" by (metis append_eq_conv_conj p)
  ultimately show ?thesis using True by (simp add: slice_to_def)
next
  case False
  have "nat (int (length p) - 1) = length p - 1" by arith
  with False show ?thesis by (simp add: py_find_absent slice_to_def butlast_conv_take)
qed

lemma slice_from_body:
  "slice_from p (py_find NUL p + 1) =
     (if NUL \<in> set p then tl (dropWhile (\<lambda>c. c \<noteq> NUL) p) else p)"
proof (cases "NUL \<in> set p")
  case True
  let ?a = "takeWhile (\<lambda>c. c \<noteq> NUL) p"
  let ?b = "tl (dropWhile (\<lambda>c. c \<noteq> NUL) p)"
  have p: "p = ?a @ NUL # ?b" using split_at_first [OF True] .
  have "NUL \<notin> set ?a" by (auto dest: set_takeWhileD)
  then have "py_find NUL (?a @ NUL # ?b) = int (length ?a)" by (rule py_find_first)
  with p have f: "py_find NUL p = int (length ?a)" by simp
  have "drop (Suc (length ?a)) p = ?b"
    by (metis append_eq_conv_conj p drop_Suc tl_drop list.sel(3))
  with f True show ?thesis by (simp add: slice_from_def nat_add_distrib)
next
  case False
  then show ?thesis by (simp add: py_find_absent slice_from_def)
qed

subsection \<open>Serialising and deserialising an object\<close>

lemma header_valid:
  assumes "utf8_valid t"
  shows "utf8_valid (t @ '' '' @ str_nat n @ [NUL])"
proof -
  have "(of_char c :: nat) < 128" if "c \<in> set (str_nat n)" for c
    using str_nat_digits [OF that] by simp
  then have "\<forall>c\<in>set ('' '' @ str_nat n @ [NUL]). (of_char c :: nat) < 128"
    by auto
  then have "utf8_valid ('' '' @ str_nat n @ [NUL])" by (rule ascii_valid)
  with assms show ?thesis by (rule utf8_valid_append)
qed

lemma header_of_ok:
  "utf8_valid (type obj) \<Longrightarrow>
   header_of obj = Inr (type obj @ '' '' @ str_nat (content_len (content obj)) @ [NUL])"
  using header_valid [of "type obj" "content_len (content obj)"]
  by (simp add: header_of_def encode_def)

lemma deserialize_result:
  assumes "zlib_decompress L data = Some p"
  shows "deserialize L data =
     (let header = (if NUL \<in> set p then takeWhile (\<lambda>c. c \<noteq> NUL) p else butlast p);
          body = (if NUL \<in> set p then tl (dropWhile (\<lambda>c. c \<noteq> NUL) p) else p)
      in if \<not> utf8_valid header then Inl UnicodeDecodeError
         else if count_list header (CHR '' '') \<noteq> 1 then Inl ValueError
         else Inr (GitObject (takeWhile (\<lambda>c. c \<noteq> CHR '' '') header) (Bytes body)))"
proof -
  define header where
    "header = (if NUL \<in> set p then takeWhile (\<lambda>c. c \<noteq> NUL) p else butlast p)"
  define body where
    "body = (if NUL \<in> set p then tl (dropWhile (\<lambda>c. c \<noteq> NUL) p) else p)"
  have d: "deserialize L data =
      (case decode header of
         Inl e \<Rightarrow> Inl e
       | Inr txt \<Rightarrow>
           (case py_split (CHR '' '') txt of
              [obj_type, x] \<Rightarrow> Inr (GitObject obj_type (Bytes body))
            | _ \<Rightarrow> Inl ValueError))"
    using assms
    unfolding deserialize_def Let_def slice_to_header slice_from_body header_def body_def
    by simp
  have "deserialize L data =
      (if \<not> utf8_valid header then Inl UnicodeDecodeError
       else if count_list header (CHR '' '') \<noteq> 1 then Inl ValueError
       else Inr (GitObject (takeWhile (\<lambda>c. c \<noteq> CHR '' '') header) (Bytes body)))"
  proof (cases "utf8_valid header")
    case False
    with d show ?thesis by (simp add: decode_def)
  next
    case True
    show ?thesis
    proof (cases "count_list header (CHR '' '') = 1")
      case one: True
      from py_split_one [OF one] d True one show ?thesis
        by (simp add: decode_def)
    next
      case other: False
      then have "length (py_split (CHR '' '') header) \<noteq> 2"
        by (simp add: py_split_length)
      then have "(case py_split (CHR '' '') header of
              [obj_type, x] \<Rightarrow> Inr (GitObject obj_type (Bytes body))
            | _ \<Rightarrow> Inl ValueError) = Inl ValueError"
        by (auto split: list.splits)
      with d True other show ?thesis by (simp add: decode_def)
    qed
  qed
  then show ?thesis by (simp add: Let_def header_def body_def)
qed

text \<open>
  A type with a space does not come back, whatever the compressor: the header then has
  two spaces, and the unpacking of line 33 raises.
\<close>

lemma deserialize_type_with_space:
  assumes "\<forall>x. zlib_decompress L (zlib_compress L x) = Some x"
  shows "serialize L (GitObject ''a b'' (Bytes ''x'')) = Inr (zlib_compress L (''a b 1'' @ [NUL] @ ''x''))
    \<and> deserialize L (zlib_compress L (''a b 1'' @ [NUL] @ ''x'')) = Inl ValueError"
proof -
  have "zlib_decompress L (zlib_compress L (''a b 1'' @ [NUL] @ ''x'')) = Some (''a b 1'' @ [NUL] @ ''x'')"
    using assms by blast
  from deserialize_result [OF this]
  have "deserialize L (zlib_compress L (''a b 1'' @ [NUL] @ ''x'')) = Inl ValueError"
    by simp
  then show ?thesis
    by (simp add: serialize_def header_of_def encode_def GitObject_def str_nat.simps digit_char_eval)
qed

text \<open>
  Claim C4, as amended.  For every library whose \<^verbatim>\<open>decompress\<close> inverts its \<^verbatim>\<open>compress\<close>,
  every type that \<^verbatim>\<open>encode()\<close> accepts and that holds neither a space nor a NUL
  character, and every content of bytes: \<^verbatim>\<open>serialize\<close> returns, and \<^verbatim>\<open>deserialize\<close> of
  what it returns is the object with that type and that content.  (With a space or a
  NUL in the type the unpacking \<^verbatim>\<open>obj_type, _ = header.split(" ")\<close> raises
  \<^verbatim>\<open>ValueError\<close>.)
\<close>

theorem serialize_deserialize_roundtrip:
  assumes rt: "\<forall>x. zlib_decompress L (zlib_compress L x) = Some x"
    and t: "utf8_valid t" "CHR '' '' \<notin> set t" "NUL \<notin> set t"
  shows "\<exists>data. serialize L (GitObject t (Bytes c)) = Inr data \<and>
     deserialize L data = Inr (GitObject t (Bytes c))"
proof -
  define ds where "ds = str_nat (length c)"
  define h where "h = t @ CHR '' '' # ds"
  define p where "p = h @ NUL # c"
  have ds: "CHR '' '' \<notin> set ds" "NUL \<notin> set ds"
    using str_nat_no_sep by (simp_all add: ds_def)
  have ser: "serialize L (GitObject t (Bytes c)) = Inr (zlib_compress L p)"
    using header_of_ok [of "GitObject t (Bytes c)"] t(1)
    by (simp add: serialize_def GitObject_def p_def h_def ds_def)
  have nul: "NUL \<notin> set h" using t(3) ds(2) by (simp add: h_def)
  have inp: "NUL \<in> set p" by (simp add: p_def)
  have tw: "takeWhile (\<lambda>c. c \<noteq> NUL) p = h"
    unfolding p_def using nul by (induction h) auto
  have dw: "tl (dropWhile (\<lambda>c. c \<noteq> NUL) p) = c"
    unfolding p_def using nul by (induction h) auto
  have "(of_char x :: nat) < 128" if "x \<in> set ds" for x
    using str_nat_digits [of x "length c"] that by (simp add: ds_def)
  then have "utf8_valid (CHR '' '' # ds)" by (intro ascii_valid) auto
  with t(1) have valid: "utf8_valid h"
    unfolding h_def by (rule utf8_valid_append)
  have one: "count_list h (CHR '' '') = 1"
    using t(2) ds(1) by (simp add: h_def count_list_0_iff)
  have ty: "takeWhile (\<lambda>c. c \<noteq> CHR '' '') h = t"
    unfolding h_def using t(2) by (induction t) auto
  from rt have "zlib_decompress L (zlib_compress L p) = Some p" by simp
  from deserialize_result [OF this] inp tw dw valid one ty
  have "deserialize L (zlib_compress L p) = Inr (GitObject t (Bytes c))"
    by (simp add: Let_def)
  with ser show ?thesis by blast
qed

theorem serialize_deserialize_roundtrip_witness:
  "(\<forall>x. zlib_decompress toy_lib (zlib_compress toy_lib x) = Some x) \<and>
   utf8_valid ''blob'' \<and> CHR '' '' \<notin> set ''blob'' \<and> NUL \<notin> set ''blob'' \<and>
   (\<exists>data. serialize toy_lib (GitObject ''blob'' (Bytes ''hello'')) = Inr data \<and>
      deserialize toy_lib data = Inr (GitObject ''blob'' (Bytes ''hello'')))"
proof -
  have 1: "\<forall>x. zlib_decompress toy_lib (zlib_compress toy_lib x) = Some x"
    by (simp add: toy_lib_def)
  have 2: "utf8_valid ''blob''" "CHR '' '' \<notin> set ''blob''" "NUL \<notin> set ''blob''"
    by simp_all
  from serialize_deserialize_roundtrip [OF 1 2, of "''hello''"] 1 2 show ?thesis
    by blast
qed

theorem serialize_deserialize_counterexample:
  "serialize toy_lib (GitObject ''a b'' (Bytes ''x'')) = Inr (''a b 1'' @ [NUL] @ ''x'') \<and>
   deserialize toy_lib (''a b 1'' @ [NUL] @ ''x'') = Inl ValueError"
proof -
  have "\<forall>x. zlib_decompress toy_lib (zlib_compress toy_lib x) = Some x"
    by (simp add: toy_lib_def)
  from deserialize_type_with_space [OF this] show ?thesis
    by (simp add: toy_lib_def)
qed

text \<open>
  Claim C5, as amended.  \<^verbatim>\<open>deserialize\<close> never fails with \<open>CorruptObject\<close>, and reads
  neither the integer of the header nor the length of the content.  It fails with
  \<^verbatim>\<open>zlib.error\<close> where the data do not decompress.  Otherwise the header is what stands
  before the first NUL byte (all bytes but the last when there is no NUL), and the
  content is what stands after that NUL (all bytes when there is none); the result
  is \<^verbatim>\<open>UnicodeDecodeError\<close> when the header is not UTF-8, \<^verbatim>\<open>ValueError\<close> when the header
  does not hold exactly one space, and else the object whose type is the header up
  to its space.
\<close>

theorem deserialize_checks:
  "deserialize L data \<noteq> Inl CorruptObject \<and>
   (zlib_decompress L data = None \<longrightarrow> deserialize L data = Inl ZlibError) \<and>
   (zlib_decompress L data = Some p \<longrightarrow>
      deserialize L data =
        (let header = (if NUL \<in> set p then takeWhile (\<lambda>c. c \<noteq> NUL) p else butlast p);
             body = (if NUL \<in> set p then tl (dropWhile (\<lambda>c. c \<noteq> NUL) p) else p)
         in if \<not> utf8_valid header then Inl UnicodeDecodeError
            else if count_list header (CHR '' '') \<noteq> 1 then Inl ValueError
            else Inr (GitObject (takeWhile (\<lambda>c. c \<noteq> CHR '' '') header) (Bytes body))))"
proof (cases "zlib_decompress L data")
  case None
  then show ?thesis by (simp add: deserialize_def)
next
  case (Some q)
  from deserialize_result [OF Some] Some show ?thesis
    by (auto simp: Let_def)
qed

theorem deserialize_checks_witness:
  "zlib_decompress toy_lib (''blob 5'' @ [NUL] @ ''hello'') = Some (''blob 5'' @ [NUL] @ ''hello'') \<and>
   deserialize toy_lib (''blob 5'' @ [NUL] @ ''hello'') = Inr (GitObject ''blob'' (Bytes ''hello'')) \<and>
   zlib_decompress (toy_lib\<lparr>zlib_decompress := (\<lambda>b. None)\<rparr>) ''junk'' = None \<and>
   deserialize (toy_lib\<lparr>zlib_decompress := (\<lambda>b. None)\<rparr>) ''junk'' = Inl ZlibError"
proof -
  have 1: "zlib_decompress toy_lib (''blob 5'' @ [NUL] @ ''hello'') = Some (''blob 5'' @ [NUL] @ ''hello'')"
    by (simp add: toy_lib_def)
  have 2: "zlib_decompress (toy_lib\<lparr>zlib_decompress := (\<lambda>b. None)\<rparr>) ''junk'' = None"
    by simp
  from deserialize_checks [of toy_lib "''blob 5'' @ [NUL] @ ''hello''" "''blob 5'' @ [NUL] @ ''hello''"]
    deserialize_checks [of "toy_lib\<lparr>zlib_decompress := (\<lambda>b. None)\<rparr>" "''junk''" "[]"] 1 2
  show ?thesis by simp
qed

theorem deserialize_checks_counterexample:
  "deserialize toy_lib ''blob 3x'' = Inr (GitObject ''blob'' (Bytes ''blob 3x'')) \<and>
   deserialize toy_lib (''blob abc'' @ [NUL] @ ''xyz'') = Inr (GitObject ''blob'' (Bytes ''xyz'')) \<and>
   deserialize toy_lib (''blob 5'' @ [NUL] @ ''ab'') = Inr (GitObject ''blob'' (Bytes ''ab''))"
proof -
  have "zlib_decompress toy_lib x = Some x" for x
    by (simp add: toy_lib_def)
  from deserialize_result [OF this] show ?thesis by simp
qed

subsection \<open>The object store\<close>

lemma py_chars_no_cont: "\<forall>c\<in>set s. \<not> is_cont c \<Longrightarrow> py_chars s = map (\<lambda>c. [c]) s"
proof (induction s)
  case Nil
  then show ?case by simp
next
  case (Cons a s)
  then have "takeWhile is_cont s = []" "dropWhile is_cont s = s"
    by (cases s; simp)+
  with Cons show ?case by simp
qed

lemma py_len_no_cont: "\<forall>c\<in>set s. \<not> is_cont c \<Longrightarrow> py_len s = length s"
  by (simp add: py_len_def py_chars_no_cont)

lemma hexval_not_cont: "hexval c \<noteq> None \<Longrightarrow> \<not> is_cont c"
  by (auto simp: hexval_def is_cont_def Let_def split: if_splits)

lemma hexdigest_no_cont: "hexdigest h \<Longrightarrow> \<forall>c\<in>set h. \<not> is_cont c"
  by (auto simp: hexdigest_def list_all_iff hexval_not_cont)

text \<open>A digest of ASCII characters lies in one bucket only: the one of its first two.\<close>

lemma bucket_of_digest:
  assumes "\<forall>c\<in>set h. \<not> is_cont c" and "py_len d = 2" and "d @ f = h"
  shows "d = take 2 h \<and> f = drop 2 h"
proof -
  from assms(1,3) have "\<forall>c\<in>set d. \<not> is_cont c" by auto
  then have "length d = 2" using assms(2) by (simp add: py_len_no_cont)
  with assms(3) show ?thesis by auto
qed

lemma all_digests_simps:
  "all_digests [] = []"
  "all_digests ((name, OFile b) # rest) = all_digests rest"
  "all_digests ((name, ODir files) # rest) =
     (if py_len name \<noteq> 2 then all_digests rest
      else map (\<lambda>p. name @ fst p) files @ all_digests rest)"
  by (simp_all add: all_digests_def comp_def case_prod_unfold)

lemma other_bucket:
  assumes "\<forall>c\<in>set h. \<not> is_cont c" and "py_len name = 2" and "name \<noteq> take 2 h"
  shows "h \<notin> set (map (\<lambda>p. name @ fst p) files)"
proof
  assume "h \<in> set (map (\<lambda>p. name @ fst p) files)"
  then obtain p where "name @ fst p = h" by auto
  with bucket_of_digest [OF assms(1,2)] assms(3) show False by blast
qed

lemma digest_not_stored:
  assumes "\<forall>c\<in>set h. \<not> is_cont c" and "take 2 h \<notin> fst ` set objs"
  shows "h \<notin> set (all_digests objs)"
  using assms(2)
proof (induction objs rule: stored_entries.induct)
  case 1
  then show ?case by (simp add: all_digests_simps)
next
  case (2 name b rest)
  then show ?case by (simp add: all_digests_simps)
next
  case (3 name files rest)
  then have ne: "name \<noteq> take 2 h" and rest: "h \<notin> set (all_digests rest)" by auto
  show ?case
  proof (cases "py_len name = 2")
    case True
    with other_bucket [OF assms(1) True ne, of files] rest show ?thesis
      by (simp add: all_digests_simps)
  next
    case False
    with rest show ?thesis by (simp add: all_digests_simps)
  qed
qed

lemma count_in_bucket:
  assumes "distinct (map fst files)"
  shows "count_list (map (\<lambda>p. d @ fst p) files) (d @ f0) =
     (if map_of files f0 \<noteq> None then 1 else 0)"
  using assms
proof (induction files)
  case Nil
  then show ?case by simp
next
  case (Cons a files)
  obtain f data where a: "a = (f, data)" by (cases a)
  show ?case
  proof (cases "f = f0")
    case True
    with Cons a have "f0 \<notin> fst ` set files" by auto
    then have "map_of files f0 = None" by (simp add: map_of_eq_None_iff)
    with Cons a True show ?thesis by simp
  next
    case False
    with Cons a show ?thesis by simp
  qed
qed

text \<open>In a listing with distinct names a digest is enumerated once if its file exists,
  and not at all otherwise.\<close>

lemma count_stored:
  assumes ascii: "\<forall>c\<in>set h. \<not> is_cont c" and len: "2 \<le> length h"
  shows "listing_ok objs \<Longrightarrow>
    count_list (all_digests objs) h = (if object_exists objs h then 1 else 0)"
proof (induction objs rule: stored_entries.induct)
  case 1
  then show ?case by (simp add: all_digests_simps object_exists_def obj_file_exists_def)
next
  case (2 name b rest)
  then have ok: "listing_ok rest" and fresh: "name \<notin> fst ` set rest"
    by (auto simp: listing_ok_def)
  show ?case
  proof (cases "name = take 2 h")
    case True
    with fresh have "h \<notin> set (all_digests rest)"
      using digest_not_stored [OF ascii] by simp
    then have "count_list (all_digests rest) h = 0"
      by (simp add: count_list_0_iff)
    with True show ?thesis
      by (simp add: all_digests_simps object_exists_def obj_file_exists_def)
  next
    case False
    with 2(1) [OF ok] show ?thesis
      by (simp add: all_digests_simps object_exists_def obj_file_exists_def)
  qed
next
  case (3 name files rest)
  then have ok: "listing_ok rest" and fresh: "name \<notin> fst ` set rest"
    and dist: "distinct (map fst files)"
    by (auto simp: listing_ok_def)
  have ih: "count_list (all_digests rest) h = (if object_exists rest h then 1 else 0)"
    using 3 ok by (cases "py_len name \<noteq> 2") auto
  show ?case
  proof (cases "name = take 2 h")
    case True
    from ascii have "\<forall>c\<in>set (take 2 h). \<not> is_cont c" by (auto dest: in_set_takeD)
    then have two: "py_len name = 2" using True len by (simp add: py_len_no_cont)
    from True fresh have "h \<notin> set (all_digests rest)"
      using digest_not_stored [OF ascii] by simp
    then have rest0: "count_list (all_digests rest) h = 0"
      by (simp add: count_list_0_iff)
    have "count_list (map (\<lambda>p. name @ fst p) files) (name @ drop 2 h)
        = (if map_of files (drop 2 h) \<noteq> None then 1 else 0)"
      by (rule count_in_bucket [OF dist])
    moreover have "name @ drop 2 h = h" using True by simp
    ultimately have "count_list (map (\<lambda>p. name @ fst p) files) h
        = (if map_of files (drop 2 h) \<noteq> None then 1 else 0)"
      by simp
    moreover have "object_exists ((name, ODir files) # rest) h \<longleftrightarrow>
        map_of files (drop 2 h) \<noteq> None"
      using True by (simp add: object_exists_def obj_file_exists_def)
    ultimately show ?thesis using two rest0
      by (simp add: all_digests_simps)
  next
    case False
    have here: "py_len name = 2 \<Longrightarrow> count_list (map (\<lambda>p. name @ fst p) files) h = 0"
      using other_bucket [OF ascii _ False, of files] by (simp add: count_list_0_iff)
    have "object_exists ((name, ODir files) # rest) h \<longleftrightarrow> object_exists rest h"
      using False by (simp add: object_exists_def obj_file_exists_def)
    with here ih show ?thesis
      by (cases "py_len name = 2") (simp_all add: all_digests_simps)
  qed
qed

lemma object_exists_iff:
  assumes "\<forall>c\<in>set h. \<not> is_cont c" and "2 \<le> length h" and "listing_ok objs"
  shows "object_exists objs h \<longleftrightarrow> h \<in> set (all_digests objs)"
proof (cases "h \<in> set (all_digests objs)")
  case True
  then have "count_list (all_digests objs) h \<noteq> 0" by (simp add: count_list_0_iff)
  with count_stored [OF assms] True show ?thesis by (auto split: if_splits)
next
  case False
  then have "count_list (all_digests objs) h = 0" by (simp add: count_list_0_iff)
  with count_stored [OF assms] False show ?thesis by (auto split: if_splits)
qed

lemma hash_serialize:
  "hash L obj = Inr h \<Longrightarrow> \<exists>data. serialize L obj = Inr data"
  by (auto simp: hash_def serialize_def split: sum.splits)

lemma hash_of_bytes:
  "utf8_valid (type obj) \<Longrightarrow> content obj = Bytes c \<Longrightarrow>
   hash L obj = Inr (sha1_hexdigest L (type obj @ '' '' @ str_nat (length c) @ [NUL] @ c))"
  using header_of_ok [of obj] by (simp add: hash_def)

lemma map_of_write_bytes:
  "map_of objs d = Some (ODir files) \<Longrightarrow>
   map_of (write_bytes objs d f data) d = Some (ODir (AList.update f data files))"
  by (simp add: write_bytes_def update_conv')

lemma mkdir_result:
  assumes "\<forall>b. map_of objs d \<noteq> Some (OFile b)"
  shows "\<exists>objs' files. mkdir_exist_ok objs d = Inr objs' \<and> map_of objs' d = Some (ODir files)
     \<and> (listing_ok objs \<longrightarrow> listing_ok objs')"
proof (cases "map_of objs d")
  case None
  then have fresh: "d \<notin> fst ` set objs" by (simp add: map_of_eq_None_iff)
  have 1: "mkdir_exist_ok objs d = Inr (objs @ [(d, ODir [])])"
    using None by (simp add: mkdir_exist_ok_def)
  have 2: "map_of (objs @ [(d, ODir [])]) d = Some (ODir [])"
    using None by (simp add: map_add_def)
  have 3: "listing_ok objs \<longrightarrow> listing_ok (objs @ [(d, ODir [])])"
    using fresh by (auto simp: listing_ok_def)
  from 1 2 3 show ?thesis by blast
next
  case (Some node)
  with assms show ?thesis by (cases node) (auto simp: mkdir_exist_ok_def)
qed

lemma listing_ok_write_bytes:
  assumes "listing_ok objs"
  shows "listing_ok (write_bytes objs d f data)"
proof (cases "map_of objs d")
  case None
  then show ?thesis using assms by (simp add: write_bytes_def)
next
  case (Some node)
  show ?thesis
  proof (cases node)
    case (OFile b)
    with Some assms show ?thesis by (simp add: write_bytes_def)
  next
    case (ODir files)
    from Some ODir have "(d, ODir files) \<in> set objs" by (auto dest: map_of_SomeD)
    with assms have "distinct (map fst files)"
      by (auto simp: listing_ok_def list_all_iff)
    then have "distinct (map fst (AList.update f data files))" by (simp add: distinct_update)
    moreover have "list_all (\<lambda>(name, node). files_distinct node) (AList.update d v objs)"
      if "files_distinct v" "list_all (\<lambda>(name, node). files_distinct node) objs" for v
      using that by (induction objs) auto
    ultimately show ?thesis using Some ODir assms
      by (simp add: write_bytes_def listing_ok_def distinct_update)
  qed
qed

lemma store_object_twice:
  assumes h: "hash L obj = Inr h"
    and bucket: "\<forall>b. map_of (objects_dir s) (take 2 h) \<noteq> Some (OFile b)"
  shows "\<exists>s1. store_object L s obj = Inr (h, s1) \<and> store_object L s1 obj = Inr (h, s1)
     \<and> object_exists (objects_dir s1) h
     \<and> (listing_ok (objects_dir s) \<longrightarrow> listing_ok (objects_dir s1))"
proof (cases "obj_file_exists (objects_dir s) (take 2 h) (drop 2 h)")
  case True
  with h show ?thesis by (simp add: store_object_def object_exists_def)
next
  case False
  from hash_serialize [OF h] obtain data where data: "serialize L obj = Inr data" by blast
  from mkdir_result [OF bucket] obtain objs' files where
    mk: "mkdir_exist_ok (objects_dir s) (take 2 h) = Inr objs'"
    and dir: "map_of objs' (take 2 h) = Some (ODir files)"
    and ok: "listing_ok (objects_dir s) \<longrightarrow> listing_ok objs'" by blast
  let ?objs = "write_bytes objs' (take 2 h) (drop 2 h) data"
  let ?s1 = "s\<lparr>objects_dir := ?objs\<rparr>"
  have first: "store_object L s obj = Inr (h, ?s1)"
    using h False mk data by (simp add: store_object_def)
  have ex: "obj_file_exists ?objs (take 2 h) (drop 2 h)"
    using map_of_write_bytes [OF dir] by (simp add: obj_file_exists_def update_conv')
  then have second: "store_object L ?s1 obj = Inr (h, ?s1)"
    using h by (simp add: store_object_def)
  from first second ex ok show ?thesis
    using listing_ok_write_bytes by (auto simp: object_exists_def)
qed




text \<open>
  Outside the cases of claim C6: an object without a digest (a type that \<^verbatim>\<open>encode()\<close>
  refuses, a content that is a list) is not stored, and a plain file under the name
  of the bucket makes \<^verbatim>\<open>mkdir\<close> raise.
\<close>

lemma store_object_no_digest:
  "hash L obj = Inl e \<Longrightarrow> store_object L s obj = Inl e"
  by (simp add: store_object_def)

lemma store_object_bucket_taken:
  "hash L obj = Inr h \<Longrightarrow> map_of (objects_dir s) (take 2 h) = Some (OFile b) \<Longrightarrow>
   store_object L s obj = Inl FileExistsError"
  by (simp add: store_object_def obj_file_exists_def mkdir_exist_ok_def)



lemma store_object_exists:
  assumes "store_object L s obj = Inr (h, s1)"
  shows "object_exists (objects_dir s1) h"
proof -
  from assms have h: "hash L obj = Inr h"
    by (auto simp: store_object_def Let_def split: sum.splits if_splits)
  have "\<forall>b. map_of (objects_dir s) (take 2 h) \<noteq> Some (OFile b)"
  proof (intro allI notI)
    fix b
    assume "map_of (objects_dir s) (take 2 h) = Some (OFile b)"
    then have "store_object L s obj = Inl FileExistsError"
      using h by (simp add: store_object_def obj_file_exists_def mkdir_exist_ok_def)
    with assms show False by simp
  qed
  from store_object_twice [OF h this] assms show ?thesis by auto
qed

lemma store_object_index:
  "store_object L s obj = Inr (h, s1) \<Longrightarrow> load_index L s1 = load_index L s"
  by (auto simp: store_object_def Let_def load_index_def split: sum.splits if_splits)

subsection \<open>The garbage collector\<close>

lemma unlink_unused_filter:
  "unlink_unused used d files = filter (\<lambda>(f, data). d @ f \<in> used) files"
  by (induction files) (auto simp: Let_def)

lemma stored_entries_gc_loop:
  "stored_entries (gc_loop used objs) = filter (\<lambda>(h, data). h \<in> used) (stored_entries objs)"
proof (induction objs rule: stored_entries.induct)
  case 1
  then show ?case by simp
next
  case (2 name b rest)
  then show ?case by simp
next
  case (3 name files rest)
  have inner: "map (\<lambda>(f, data). (name @ f, data)) (unlink_unused used name files)
      = filter (\<lambda>(h, data). h \<in> used) (map (\<lambda>(f, data). (name @ f, data)) files)"
    by (induction files) (auto simp: Let_def)
  show ?case
  proof (cases "py_len name \<noteq> 2")
    case True
    with 3 show ?thesis by simp
  next
    case False
    with 3 inner show ?thesis
      by (cases "unlink_unused used name files = []") (auto simp: Let_def)
  qed
qed

lemma empty_buckets_gc_loop: "empty_buckets (gc_loop used objs) = []"
  by (induction objs rule: stored_entries.induct) (auto simp: Let_def)

lemma load_index_gc: "load_index L (gc L s) = load_index L s"
  by (simp add: gc_def load_index_def Let_def)

lemma all_digests_gc:
  "all_digests (objects_dir (gc L s)) =
     filter (\<lambda>h. h \<in> snd ` set (load_index L s)) (all_digests (objects_dir s))"
  by (simp add: gc_def Let_def all_digests_def stored_entries_gc_loop filter_map comp_def
      case_prod_unfold)

lemma fst_gc_loop: "fst ` set (gc_loop used objs) \<subseteq> fst ` set objs"
  by (induction objs rule: stored_entries.induct) (auto simp: Let_def)

lemma listing_ok_gc_loop: "listing_ok objs \<Longrightarrow> listing_ok (gc_loop used objs)"
proof (induction objs rule: stored_entries.induct)
  case 1
  then show ?case by simp
next
  case (2 name b rest)
  then show ?case using fst_gc_loop [of used rest] by (auto simp: listing_ok_def)
next
  case (3 name files rest)
  then show ?case using fst_gc_loop [of used rest]
    by (auto simp: listing_ok_def Let_def unlink_unused_filter distinct_map_filter)
qed

text \<open>What is left in a bucket after the sweep is referenced, distinct names or not.\<close>

lemma swept_bucket:
  assumes "(name, ODir files) \<in> set (gc_loop used objs)" and "py_len name = 2"
    and "f \<in> fst ` set files"
  shows "name @ f \<in> used"
  using assms(1)
proof (induction objs rule: stored_entries.induct)
  case 1
  then show ?case by simp
next
  case (2 nm b rest)
  then show ?case by auto
next
  case (3 nm fs rest)
  show ?case
  proof (cases "(name, ODir files) \<in> set (gc_loop used rest)")
    case True
    with 3 show ?thesis by (auto simp: Let_def split: if_splits)
  next
    case False
    with 3(3) assms(2) have "nm = name" "files = unlink_unused used name fs"
      by (auto simp: Let_def split: if_splits)
    with assms(3) show ?thesis by (auto simp: unlink_unused_filter)
  qed
qed

lemma unreferenced_gone:
  assumes "hexdigest h" and "h \<notin> snd ` set (load_index L s)"
  shows "\<not> object_exists (objects_dir (gc L s)) h"
proof
  let ?used = "set (map snd (load_index L s))"
  assume "object_exists (objects_dir (gc L s)) h"
  then obtain files where
    dir: "map_of (gc_loop ?used (objects_dir s)) (take 2 h) = Some (ODir files)"
    and present: "map_of files (drop 2 h) \<noteq> None"
    by (auto simp: object_exists_def obj_file_exists_def gc_def Let_def
        split: option.splits onode.splits)
  from dir have mem: "(take 2 h, ODir files) \<in> set (gc_loop ?used (objects_dir s))"
    by (rule map_of_SomeD)
  from present have f: "drop 2 h \<in> fst ` set files"
    by (simp add: map_of_eq_None_iff)
  from assms(1) have "\<forall>c\<in>set (take 2 h). \<not> is_cont c" "2 \<le> length h"
    using hexdigest_no_cont by (auto simp: hexdigest_def dest: in_set_takeD)
  then have "py_len (take 2 h) = 2" by (simp add: py_len_no_cont)
  from swept_bucket [OF mem this f] have "h \<in> ?used" by simp
  with assms(2) show False by simp
qed

lemma object_exists_gc:
  assumes "hexdigest h" and "listing_ok (objects_dir s)"
  shows "object_exists (objects_dir (gc L s)) h \<longleftrightarrow>
     object_exists (objects_dir s) h \<and> h \<in> snd ` set (load_index L s)"
proof -
  have ascii: "\<forall>c\<in>set h. \<not> is_cont c" and len: "2 \<le> length h"
    using assms(1) hexdigest_no_cont by (auto simp: hexdigest_def)
  have ok: "listing_ok (objects_dir (gc L s))"
    using assms(2) by (simp add: gc_def Let_def listing_ok_gc_loop)
  show ?thesis
    unfolding object_exists_iff [OF ascii len ok] object_exists_iff [OF ascii len assms(2)]
    by (auto simp: all_digests_gc)
qed

text \<open>
  Claim C2.  For every state of the store and every index: the stored entries after
  \<^verbatim>\<open>gc\<close> are the stored entries before it whose digest is a value of the index, with
  their bytes and in their order; no bucket is left without a file; the index is not
  changed.  For a digest of the form \<^verbatim>\<open>hexdigest()\<close> returns and a store with distinct
  names, the object exists after \<^verbatim>\<open>gc\<close> exactly if it existed before and is a value of
  the index (so of three stored blobs of which the index names the first, the first
  is kept and the other two are removed).  A tree that \<^verbatim>\<open>store_object\<close> has just
  written, and whose digest is not a value of the index, exists before \<^verbatim>\<open>gc\<close> and no
  longer after it.
\<close>

theorem gc_deletes_unreferenced:
  "stored_entries (objects_dir (gc L s)) =
     filter (\<lambda>(h, data). h \<in> snd ` set (load_index L s)) (stored_entries (objects_dir s)) \<and>
   empty_buckets (objects_dir (gc L s)) = [] \<and>
   load_index L (gc L s) = load_index L s \<and>
   (hexdigest h \<and> listing_ok (objects_dir s) \<longrightarrow>
      (object_exists (objects_dir (gc L s)) h \<longleftrightarrow>
         object_exists (objects_dir s) h \<and> h \<in> snd ` set (load_index L s))) \<and>
   (store_object L s0 (t :: tree) = Inr (th, s) \<and> hexdigest th \<and>
      th \<notin> snd ` set (load_index L s) \<longrightarrow>
      object_exists (objects_dir s) th \<and> \<not> object_exists (objects_dir (gc L s)) th)"
proof -
  have 1: "stored_entries (objects_dir (gc L s)) =
     filter (\<lambda>(h, data). h \<in> snd ` set (load_index L s)) (stored_entries (objects_dir s))"
    by (simp add: gc_def Let_def stored_entries_gc_loop)
  have 2: "empty_buckets (objects_dir (gc L s)) = []"
    by (simp add: gc_def Let_def empty_buckets_gc_loop)
  note 3 = load_index_gc [of L s]
  have 4: "hexdigest h \<and> listing_ok (objects_dir s) \<longrightarrow>
      (object_exists (objects_dir (gc L s)) h \<longleftrightarrow>
         object_exists (objects_dir s) h \<and> h \<in> snd ` set (load_index L s))"
    using object_exists_gc by blast
  have 5: "store_object L s0 t = Inr (th, s) \<and> hexdigest th \<and>
      th \<notin> snd ` set (load_index L s) \<longrightarrow>
      object_exists (objects_dir s) th \<and> \<not> object_exists (objects_dir (gc L s)) th"
    using store_object_exists unreferenced_gone by blast
  from 1 2 3 4 5 show ?thesis by blast
qed

theorem gc_deletes_unreferenced_witness:
  "hexdigest digest1 \<and> hexdigest digest2 \<and> hexdigest digest3 \<and>
   listing_ok (objects_dir gc_repo) \<and>
   load_index toy_lib gc_repo = [(''a.txt'', digest1)] \<and>
   object_exists (objects_dir gc_repo) digest1 \<and>
   object_exists (objects_dir gc_repo) digest2 \<and>
   object_exists (objects_dir gc_repo) digest3 \<and>
   object_exists (objects_dir (gc toy_lib gc_repo)) digest1 \<and>
   \<not> object_exists (objects_dir (gc toy_lib gc_repo)) digest2 \<and>
   \<not> object_exists (objects_dir (gc toy_lib gc_repo)) digest3 \<and>
   stored_entries (objects_dir (gc toy_lib gc_repo)) = [(digest1, ''blob 4'' @ [NUL] @ ''abcd'')] \<and>
   hexdigest digest4 \<and>
   (\<exists>s1. store_object toy_lib gc_repo notes_tree = Inr (digest4, s1) \<and>
      digest4 \<notin> snd ` set (load_index toy_lib s1) \<and>
      object_exists (objects_dir s1) digest4 \<and>
      \<not> object_exists (objects_dir (gc toy_lib s1)) digest4)"
proof -
  have hex: "hexdigest digest1" "hexdigest digest2" "hexdigest digest3" "hexdigest digest4"
    by code_simp+
  have ok: "listing_ok (objects_dir gc_repo)"
    by code_simp
  have idx: "load_index toy_lib gc_repo = [(''a.txt'', digest1)]"
    by code_simp
  have before: "object_exists (objects_dir gc_repo) digest1"
    "object_exists (objects_dir gc_repo) digest2"
    "object_exists (objects_dir gc_repo) digest3"
    by code_simp+
  have ref: "digest1 \<in> snd ` set (load_index toy_lib gc_repo)"
    "digest2 \<notin> snd ` set (load_index toy_lib gc_repo)"
    "digest3 \<notin> snd ` set (load_index toy_lib gc_repo)"
    "digest4 \<notin> snd ` set (load_index toy_lib gc_repo)"
    unfolding idx by code_simp+
  have entries: "filter (\<lambda>(h, data). h \<in> snd ` set (load_index toy_lib gc_repo))
      (stored_entries (objects_dir gc_repo)) = [(digest1, ''blob 4'' @ [NUL] @ ''abcd'')]"
    unfolding idx by code_simp
  have "hash toy_lib notes_tree = Inr digest4"
    by code_simp
  moreover have "map_of (objects_dir gc_repo) (take 2 digest4) = None"
    by code_simp
  ultimately obtain s1 where st: "store_object toy_lib gc_repo notes_tree = Inr (digest4, s1)"
    using store_object_twice [of toy_lib notes_tree digest4 gc_repo] by auto
  from store_object_index [OF st] ref(4)
  have ref1: "digest4 \<notin> snd ` set (load_index toy_lib s1)" by simp
  from gc_deletes_unreferenced [where L = toy_lib and s = gc_repo and h = digest1]
    gc_deletes_unreferenced [where L = toy_lib and s = gc_repo and h = digest2]
    gc_deletes_unreferenced [where L = toy_lib and s = gc_repo and h = digest3]
    gc_deletes_unreferenced [where L = toy_lib and s = s1 and ?s0.0 = gc_repo
      and t = notes_tree and th = digest4]
    hex ok idx before ref entries st ref1
  show ?thesis by (intro conjI exI [of _ s1]) (simp_all only:, blast+)
qed

subsection \<open>Staging\<close>

lemma add_file_gc:
  "add_file L s path = Inr s' \<Longrightarrow> \<exists>s2. s' = gc L s2"
  by (auto simp: add_file_def Let_def split: option.splits wnode.splits sum.splits)

lemma add_directory_gc:
  "add_directory L s path = Inr s' \<Longrightarrow> \<exists>s2. s' = gc L s2"
  by (auto simp: add_directory_def Let_def split: option.splits wnode.splits sum.splits)

lemma after_gc:
  "set (all_digests (objects_dir (gc L s))) \<subseteq> snd ` set (load_index L (gc L s))"
  by (auto simp: all_digests_gc load_index_gc)

text \<open>
  Claim C10.  Whenever \<^verbatim>\<open>add_file\<close> or \<^verbatim>\<open>add_directory\<close> returns, every digest that the
  object store then holds is a value of the index that \<^verbatim>\<open>load_index\<close> then reads:
  both operations end with \<^verbatim>\<open>gc\<close>, after the index is saved, on every path that
  returns.
\<close>

theorem add_leaves_only_referenced:
  "(add_file L s path = Inr s' \<longrightarrow>
      set (all_digests (objects_dir s')) \<subseteq> snd ` set (load_index L s')) \<and>
   (add_directory L s path = Inr s'' \<longrightarrow>
      set (all_digests (objects_dir s'')) \<subseteq> snd ` set (load_index L s''))"
  using add_file_gc [of L s path s'] add_directory_gc [of L s path s''] after_gc
  by blast

theorem add_leaves_only_referenced_witness:
  "(\<exists>s'. add_file toy_lib work_repo ''a.txt'' = Inr s' \<and>
      load_index toy_lib s' = [(''old.txt'', digest3), (''a.txt'', digest1)] \<and>
      all_digests (objects_dir s') = [digest1, digest3] \<and>
      set (all_digests (objects_dir s')) \<subseteq> snd ` set (load_index toy_lib s')) \<and>
   (\<exists>s''. add_directory toy_lib work_repo ''src'' = Inr s'' \<and>
      load_index toy_lib s'' = [(''old.txt'', digest3), (''src/main.py'', digest2)] \<and>
      all_digests (objects_dir s'') = [digest2, digest3] \<and>
      set (all_digests (objects_dir s'')) \<subseteq> snd ` set (load_index toy_lib s''))"
proof -
  have 1: "(case add_file toy_lib work_repo ''a.txt'' of
      Inl e \<Rightarrow> False
    | Inr s' \<Rightarrow> load_index toy_lib s' = [(''old.txt'', digest3), (''a.txt'', digest1)] \<and>
        all_digests (objects_dir s') = [digest1, digest3])"
    by code_simp
  have 2: "(case add_directory toy_lib work_repo ''src'' of
      Inl e \<Rightarrow> False
    | Inr s'' \<Rightarrow> load_index toy_lib s'' = [(''old.txt'', digest3), (''src/main.py'', digest2)] \<and>
        all_digests (objects_dir s'') = [digest2, digest3])"
    by code_simp
  from 1 obtain s' where a: "add_file toy_lib work_repo ''a.txt'' = Inr s'"
    "load_index toy_lib s' = [(''old.txt'', digest3), (''a.txt'', digest1)]"
    "all_digests (objects_dir s') = [digest1, digest3]"
    by (auto split: sum.splits)
  from 2 obtain s'' where b: "add_directory toy_lib work_repo ''src'' = Inr s''"
    "load_index toy_lib s'' = [(''old.txt'', digest3), (''src/main.py'', digest2)]"
    "all_digests (objects_dir s'') = [digest2, digest3]"
    by (auto split: sum.splits)
  from add_leaves_only_referenced [of toy_lib work_repo "''a.txt''" s' s'']
    add_leaves_only_referenced [of toy_lib work_repo "''src''" s' s''] a b
  show ?thesis by blast
qed

subsection \<open>The index\<close>

text \<open>
  Claim C9.  \<^verbatim>\<open>load_index\<close> returns the empty mapping when the index file does not
  exist, when its bytes do not decode, and when \<^verbatim>\<open>json.loads\<close> raises on its text;
  otherwise it returns the mapping that \<^verbatim>\<open>json.loads\<close> gives.  After \<^verbatim>\<open>save_index\<close> of a
  mapping that \<^verbatim>\<open>json.loads\<close> reads back from what \<^verbatim>\<open>json.dumps\<close> wrote, that is the
  mapping saved.
\<close>

theorem load_index_cases:
  "(index_file s = None \<longrightarrow> load_index L s = []) \<and>
   (index_file s = Some raw \<and> decode raw = Inl e \<longrightarrow> load_index L s = []) \<and>
   (index_file s = Some raw \<and> decode raw = Inr decoded \<and> json_loads L decoded = None \<longrightarrow>
      load_index L s = []) \<and>
   (index_file s = Some raw \<and> decode raw = Inr decoded \<and> json_loads L decoded = Some idx \<longrightarrow>
      load_index L s = idx) \<and>
   (save_index L s0 idx = Inr s \<and> json_loads L (json_dumps L idx) = Some idx \<longrightarrow>
      load_index L s = idx)"
  by (auto simp: load_index_def save_index_def encode_def decode_def split: if_splits)

theorem load_index_cases_witness:
  "index_file (repo_of None []) = None \<and>
   load_index toy_lib (repo_of None []) = [] \<and>
   decode [CHR 0xFF] = Inl UnicodeDecodeError \<and>
   load_index toy_lib (repo_of (Some [CHR 0xFF]) []) = [] \<and>
   decode ''junk'' = Inr ''junk'' \<and> json_loads toy_lib ''junk'' = None \<and>
   load_index toy_lib (repo_of (Some ''junk'') []) = [] \<and>
   decode (''a.txt'' @ [NUL] @ digest1 @ [NUL]) = Inr (''a.txt'' @ [NUL] @ digest1 @ [NUL]) \<and>
   json_loads toy_lib (''a.txt'' @ [NUL] @ digest1 @ [NUL]) = Some [(''a.txt'', digest1)] \<and>
   load_index toy_lib (repo_of (Some (''a.txt'' @ [NUL] @ digest1 @ [NUL])) []) =
     [(''a.txt'', digest1)] \<and>
   (\<exists>s. save_index toy_lib (repo_of None []) [(''a.txt'', digest1)] = Inr s \<and>
      load_index toy_lib s = [(''a.txt'', digest1)])"
proof -
  have none: "index_file (repo_of None []) = None"
    by (simp add: repo_of_def)
  have bad: "index_file (repo_of (Some [CHR 0xFF]) []) = Some [CHR 0xFF]"
    "decode [CHR 0xFF] = Inl UnicodeDecodeError"
    by (simp_all add: repo_of_def decode_def)
  have junk: "index_file (repo_of (Some ''junk'') []) = Some ''junk''"
    "decode ''junk'' = Inr ''junk''" "json_loads toy_lib ''junk'' = None"
    by (simp_all add: repo_of_def decode_def toy_lib_def)
  have good: "index_file (repo_of (Some (''a.txt'' @ [NUL] @ digest1 @ [NUL])) []) =
      Some (''a.txt'' @ [NUL] @ digest1 @ [NUL])"
    by (simp add: repo_of_def)
  have good': "decode (''a.txt'' @ [NUL] @ digest1 @ [NUL]) = Inr (''a.txt'' @ [NUL] @ digest1 @ [NUL])"
    "json_loads toy_lib (''a.txt'' @ [NUL] @ digest1 @ [NUL]) = Some [(''a.txt'', digest1)]"
    "json_loads toy_lib (json_dumps toy_lib [(''a.txt'', digest1)]) = Some [(''a.txt'', digest1)]"
    by code_simp+
  have "utf8_valid (json_dumps toy_lib [(''a.txt'', digest1)])"
    by code_simp
  then have saved: "save_index toy_lib (repo_of None []) [(''a.txt'', digest1)] =
      Inr ((repo_of None [])\<lparr>index_file := Some (json_dumps toy_lib [(''a.txt'', digest1)])\<rparr>)"
    by (simp add: save_index_def encode_def)
  have 1: "load_index toy_lib (repo_of None []) = []"
    using load_index_cases [where L = toy_lib and s = "repo_of None []"] none
    by simp
  have 2: "load_index toy_lib (repo_of (Some [CHR 0xFF]) []) = []"
    using load_index_cases [where L = toy_lib and s = "repo_of (Some [CHR 0xFF]) []"
      and raw = "[CHR 0xFF]" and e = UnicodeDecodeError] bad
    by simp
  have 3: "load_index toy_lib (repo_of (Some ''junk'') []) = []"
    using load_index_cases [where L = toy_lib and s = "repo_of (Some ''junk'') []"
      and raw = "''junk''" and decoded = "''junk''"] junk
    by simp
  have 4: "load_index toy_lib (repo_of (Some (''a.txt'' @ [NUL] @ digest1 @ [NUL])) []) =
      [(''a.txt'', digest1)]"
    using load_index_cases [where L = toy_lib
      and s = "repo_of (Some (''a.txt'' @ [NUL] @ digest1 @ [NUL])) []"
      and raw = "''a.txt'' @ [NUL] @ digest1 @ [NUL]"
      and decoded = "''a.txt'' @ [NUL] @ digest1 @ [NUL]" and idx = "[(''a.txt'', digest1)]"]
      good good'(1,2)
    by simp
  have 5: "load_index toy_lib
      ((repo_of None [])\<lparr>index_file := Some (json_dumps toy_lib [(''a.txt'', digest1)])\<rparr>) =
      [(''a.txt'', digest1)]"
    using load_index_cases [where L = toy_lib and ?s0.0 = "repo_of None []"
      and idx = "[(''a.txt'', digest1)]"
      and s = "(repo_of None [])\<lparr>index_file := Some (json_dumps toy_lib [(''a.txt'', digest1)])\<rparr>"]
      saved good'(3)
    by simp
  from saved 5 have 6: "\<exists>s. save_index toy_lib (repo_of None []) [(''a.txt'', digest1)] = Inr s \<and>
      load_index toy_lib s = [(''a.txt'', digest1)]"
    by (intro exI conjI)
  from none 1 bad(2) 2 junk(2,3) 3 good'(1,2) 4 6 show ?thesis
    by (intro conjI)
qed

subsection \<open>Trees\<close>

text \<open>
  The bytes of \<^verbatim>\<open>_serialize_entries\<close> do not depend on the order in which two entries
  were appended: where a tree is built by \<^verbatim>\<open>add_entry\<close>, which stores those bytes as
  \<^verbatim>\<open>content\<close>, both orders give the same content, digest and serialised bytes.
\<close>

lemma sort_swap: "sort (es @ [a, b]) = sort (es @ [b, a])"
proof -
  have "insort a (insort b []) = insort b (insort a [])"
    by (rule insort_left_comm)
  then show ?thesis
    by (simp add: sort_key_def del: insort_key.simps)
qed

lemma add_entry_order:
  assumes "add_entry t m1 n1 h1 = Inr t1" and "add_entry t1 m2 n2 h2 = Inr t12"
    and "add_entry t m2 n2 h2 = Inr t2" and "add_entry t2 m1 n1 h1 = Inr t21"
  shows "content t12 = content t21 \<and> hash L t12 = hash L t21 \<and> serialize L t12 = serialize L t21"
proof -
  from assms have c: "content t12 = content t21" and ty: "type t12 = type t21"
    using sort_swap [of "entries t" "(m1, n1, h1)" "(m2, n2, h2)"]
    by (auto simp: add_entry_def Let_def serialize_entries_def split: sum.splits)
  show ?thesis
    unfolding hash_def serialize_def header_of_def c ty by simp
qed

lemma add_entry_order_example:
  "(case Tree_init [] of
      Inl e \<Rightarrow> False
    | Inr t \<Rightarrow>
        (case add_entry t ''100644'' ''a.txt'' digest1 of
           Inl e \<Rightarrow> False
         | Inr t1 \<Rightarrow>
             (case add_entry t ''40000'' ''dir'' digest2 of
                Inl e \<Rightarrow> False
              | Inr t2 \<Rightarrow>
                  (case add_entry t1 ''40000'' ''dir'' digest2 of
                     Inl e \<Rightarrow> False
                   | Inr t12 \<Rightarrow>
                       (case add_entry t2 ''100644'' ''a.txt'' digest1 of
                          Inl e \<Rightarrow> False
                        | Inr t21 \<Rightarrow>
                            content t12 = content t21 \<and>
                            hash toy_lib t12 = hash toy_lib t21 \<and>
                            hash toy_lib t12 \<noteq> Inl TypeError)))))"
  by code_simp

lemma tree_header: "type t = ''tree'' \<Longrightarrow> \<exists>hd. header_of t = Inr hd"
  using header_of_ok [of t] by simp

text \<open>
  Claim C7, on the code.  A tree built by the constructor from a list of entries, in
  whatever order, has that list as its \<^verbatim>\<open>content\<close> (line 48 passes \<^verbatim>\<open>entries\<close> where the
  serialised bytes were meant).  \<^verbatim>\<open>hash\<close> and \<^verbatim>\<open>serialize\<close> then add a list to \<^verbatim>\<open>bytes\<close>:
  the tree has no digest and no stored bytes, and \<^verbatim>\<open>store_object\<close> raises
  \<^verbatim>\<open>TypeError\<close>.
\<close>

theorem tree_constructor_has_no_digest:
  assumes "Tree_init es = Inr t"
  shows "hash L t = Inl TypeError \<and> serialize L t = Inl TypeError \<and>
     store_object L s t = Inl TypeError"
proof -
  from assms have t: "type t = ''tree''" "content t = EntryList es"
    by (auto simp: Tree_init_def split: sum.splits)
  from tree_header [OF t(1)] obtain hd where "header_of t = Inr hd" by blast
  with t(2) have "hash L t = Inl TypeError" "serialize L t = Inl TypeError"
    by (simp_all add: hash_def serialize_def)
  then show ?thesis by (simp add: store_object_def)
qed

theorem tree_constructor_has_no_digest_witness:
  "Tree_init [entry_a, entry_b] =
     Inr \<lparr>type = ''tree'', content = EntryList [entry_a, entry_b], entries = [entry_a, entry_b]\<rparr> \<and>
   hash toy_lib \<lparr>type = ''tree'', content = EntryList [entry_a, entry_b],
     entries = [entry_a, entry_b]\<rparr> = Inl TypeError \<and>
   Tree_init [entry_b, entry_a] =
     Inr \<lparr>type = ''tree'', content = EntryList [entry_b, entry_a], entries = [entry_b, entry_a]\<rparr> \<and>
   hash toy_lib \<lparr>type = ''tree'', content = EntryList [entry_b, entry_a],
     entries = [entry_b, entry_a]\<rparr> = Inl TypeError"
proof -
  have 1: "Tree_init [entry_a, entry_b] =
     Inr \<lparr>type = ''tree'', content = EntryList [entry_a, entry_b], entries = [entry_a, entry_b]\<rparr>"
    by code_simp
  have 2: "Tree_init [entry_b, entry_a] =
     Inr \<lparr>type = ''tree'', content = EntryList [entry_b, entry_a], entries = [entry_b, entry_a]\<rparr>"
    by code_simp
  from tree_constructor_has_no_digest [OF 1, of toy_lib]
    tree_constructor_has_no_digest [OF 2, of toy_lib] 1 2
  show ?thesis by blast
qed

subsection \<open>The tree builder\<close>

lemma create_tree_recursive_raises: "create_tree_recursive L d s = Inl TypeError"
  by simp

text \<open>
  Claim C3, on the code.  With an empty index \<^verbatim>\<open>create_tree_from_index\<close> calls
  \<^verbatim>\<open>Tree()\<close> (line 283), which lacks the argument \<^verbatim>\<open>entries\<close>: the result is a
  \<^verbatim>\<open>TypeError\<close>, and no tree is stored.
\<close>

theorem create_tree_empty_index_raises:
  "load_index L s = [] \<Longrightarrow> create_tree_from_index L s = Inl TypeError"
  by (simp add: create_tree_from_index_def)

theorem create_tree_empty_index_raises_witness:
  "load_index toy_lib (repo_of None []) = [] \<and>
   create_tree_from_index toy_lib (repo_of None []) = Inl TypeError"
proof -
  have 1: "load_index toy_lib (repo_of None []) = []"
    by (simp add: load_index_def repo_of_def)
  from create_tree_empty_index_raises [OF 1] 1 show ?thesis by simp
qed

text \<open>
  Claim C1, on the code.  With the index \<^verbatim>\<open>{"a.txt": d1, "dir/b.txt": d2}\<close>, in either
  order of insertion, \<^verbatim>\<open>create_tree_from_index\<close> groups the paths and then raises
  \<^verbatim>\<open>ValueError\<close> at line 323, where the key \<^verbatim>\<open>"dir"\<close> of \<^verbatim>\<open>dirs\<close> is unpacked into two
  names.  No tree is stored and no digest returned.
\<close>

theorem create_tree_two_entries_raises:
  assumes "load_index L s = [(''a.txt'', d1), (''dir/b.txt'', d2)] \<or>
    load_index L s = [(''dir/b.txt'', d2), (''a.txt'', d1)]"
  shows "create_tree_from_index L s = Inl ValueError"
  using assms
  by (auto simp: create_tree_from_index_def unpack_pair_def is_cont_def)

theorem create_tree_two_entries_raises_witness:
  "load_index toy_lib two_entry_repo = [(''a.txt'', digest1), (''dir/b.txt'', digest2)] \<and>
   create_tree_from_index toy_lib two_entry_repo = Inl ValueError"
proof -
  have 1: "load_index toy_lib two_entry_repo = [(''a.txt'', digest1), (''dir/b.txt'', digest2)]"
    by code_simp
  from create_tree_two_entries_raises [OF disjI1, OF 1] 1 show ?thesis by simp
qed

text \<open>The grouping loop fails only where a path runs through a name staged as a file.\<close>

lemma py_split_nonempty: "py_split sep s \<noteq> []"
  by (induction s) (auto split: list.splits)

lemma insert_at_error: "insert_at mid last_part h cur = Inl e \<Longrightarrow> e = TypeError"
proof (induction mid arbitrary: cur e)
  case Nil
  then show ?case by (cases cur) auto
next
  case (Cons part mid)
  show ?case
  proof (cases cur)
    case (Str v)
    with Cons.prems show ?thesis by (auto split: if_splits)
  next
    case (Dict d)
    define d' where "d' = (if part \<notin> fst ` set d then AList.update part (Dict []) d else d)"
    have in': "part \<in> fst ` set d'" by (auto simp: d'_def dom_update)
    then obtain sub where sub: "map_of d' part = Some sub"
      by (metis domD dom_map_of_conv_image_fst)
    from Cons.prems Dict sub have "insert_at mid last_part h sub = Inl e"
      by (auto simp: d'_def split: if_splits sum.splits)
    then show ?thesis by (rule Cons.IH)
  qed
qed

lemma group_loop_error: "group_loop idx files dirs = Inl e \<Longrightarrow> e = TypeError"
proof (induction idx arbitrary: files dirs)
  case Nil
  then show ?case by simp
next
  case (Cons a idx)
  obtain file_path blob_hash where a: "a = (file_path, blob_hash)" by (cases a)
  show ?case
  proof (cases "py_split (CHR ''/'') file_path")
    case Nil
    then show ?thesis using py_split_nonempty by blast
  next
    case (Cons dir_name others)
    note parts = this
    show ?thesis
    proof (cases others)
      case Nil
      with Cons.prems a parts Cons.IH show ?thesis by auto
    next
      case (Cons o1 os)
      define dirs1 where "dirs1 = (if dir_name \<notin> fst ` set dirs
          then AList.update dir_name (Dict []) dirs else dirs)"
      have "dir_name \<in> fst ` set dirs1" by (auto simp: dirs1_def dom_update)
      then obtain cur where cur: "map_of dirs1 dir_name = Some cur"
        by (metis domD dom_map_of_conv_image_fst)
      show ?thesis
      proof (cases "insert_at (butlast others) (last others) blob_hash cur")
        case (Inl e')
        with Cons.prems a parts Cons cur have "e = e'"
          by (simp add: dirs1_def Let_def)
        with Inl insert_at_error show ?thesis by blast
      next
        case (Inr cur')
        with Cons.prems a parts Cons cur
        have "group_loop idx files (AList.update dir_name cur' dirs1) = Inl e"
          by (simp add: dirs1_def Let_def)
        then show ?thesis by (rule Cons.IH)
      qed
    qed
  qed
qed

text \<open>
  Claim C8, as amended.  The tree builder does not validate paths and never raises
  \<open>InvalidPath\<close>.  Its grouping loop takes an empty segment as a name like any other:
  a path \<^verbatim>\<open>d/\<close> becomes a file with the empty name in the directory \<^verbatim>\<open>d\<close>, and a path
  \<^verbatim>\<open>d//f\<close> a file \<^verbatim>\<open>f\<close> in a directory with the empty name in \<^verbatim>\<open>d\<close>.
\<close>

theorem group_loop_keeps_empty_segments:
  "group_loop idx files dirs \<noteq> Inl InvalidPath \<and>
   create_tree_from_index L s \<noteq> Inl InvalidPath \<and>
   (CHR ''/'' \<notin> set d \<longrightarrow>
      group_loop [(d @ ''/'', h)] [] [] = Inr ([], [(d, Dict [([], Str h)])])) \<and>
   (CHR ''/'' \<notin> set d \<and> CHR ''/'' \<notin> set f \<longrightarrow>
      group_loop [(d @ ''//'' @ f, h)] [] [] = Inr ([], [(d, Dict [([], Dict [(f, Str h)])])]))"
proof -
  have 1: "group_loop idx files dirs \<noteq> Inl InvalidPath"
    using group_loop_error by fastforce
  have "dirs_loop ds root \<noteq> Inl InvalidPath" for ds root
    by (induction ds arbitrary: root)
      (auto simp: unpack_pair_def split: sum.splits list.splits)
  then have 2: "create_tree_from_index L s \<noteq> Inl InvalidPath"
    using group_loop_error [of "load_index L s" "[]" "[]" InvalidPath]
    by (auto simp: create_tree_from_index_def Let_def split: sum.splits)
  have 3: "group_loop [(d @ ''/'', h)] [] [] = Inr ([], [(d, Dict [([], Str h)])])"
    if "CHR ''/'' \<notin> set d"
    using py_split_first [OF that, of "[]"] by simp
  have 4: "group_loop [(d @ ''//'' @ f, h)] [] [] = Inr ([], [(d, Dict [([], Dict [(f, Str h)])])])"
    if "CHR ''/'' \<notin> set d" "CHR ''/'' \<notin> set f"
    using py_split_first [OF that(1), of "CHR ''/'' # f"] py_split_none [OF that(2)] by simp
  from 1 2 3 4 show ?thesis by blast
qed

theorem group_loop_keeps_empty_segments_witness:
  "CHR ''/'' \<notin> set ''dir'' \<and> CHR ''/'' \<notin> set ''b.txt'' \<and>
   group_loop [(''dir'' @ ''/'', digest1)] [] [] = Inr ([], [(''dir'', Dict [([], Str digest1)])]) \<and>
   group_loop [(''dir'' @ ''//'' @ ''b.txt'', digest1)] [] [] =
     Inr ([], [(''dir'', Dict [([], Dict [(''b.txt'', Str digest1)])])])"
proof -
  have 1: "CHR ''/'' \<notin> set ''dir''" "CHR ''/'' \<notin> set ''b.txt''"
    by simp_all
  from group_loop_keeps_empty_segments
    [where d = "''dir''" and f = "''b.txt''" and h = digest1] 1
  show ?thesis by blast
qed

theorem invalid_path_counterexample:
  "load_index toy_lib slash_repo = [(''ab//c'', digest1), (''ab/'', digest2)] \<and>
   group_loop [(''ab//c'', digest1), (''ab/'', digest2)] [] [] =
     Inr ([], [(''ab'', Dict [([], Str digest2)])]) \<and>
   create_tree_from_index toy_lib slash_repo = Inl TypeError"
proof -
  have 1: "load_index toy_lib slash_repo = [(''ab//c'', digest1), (''ab/'', digest2)]"
    by code_simp
  have 2: "group_loop [(''ab//c'', digest1), (''ab/'', digest2)] [] [] =
     Inr ([], [(''ab'', Dict [([], Str digest2)])])"
    by code_simp
  have "(case create_tree_from_index toy_lib slash_repo of
      Inl e \<Rightarrow> e = TypeError
    | Inr r \<Rightarrow> False)"
    by code_simp
  then have 3: "create_tree_from_index toy_lib slash_repo = Inl TypeError"
    by (auto split: sum.splits)
  from 1 2 3 show ?thesis by (intro conjI)
qed

end
